theory Spec2Isabelle
  imports Main "HOL-Library.AList"
begin

section \<open>readAdat: a shallow embedding of \<^verbatim>\<open>readadat.py\<close>\<close>

text \<open>
  The input of the model is the sequence of rows that the tab-delimited \<^verbatim>\<open>csv.reader\<close>
  of line 50 yields: every row is the list of its tab-separated fields (a blank line is the empty
  row). Opening the file and the tokenizer itself are not modelled. Python's exceptions
  are values of the type \<open>error\<close>; a run that raises returns \<open>Inl\<close>.
\<close>

subsection \<open>Errors\<close>

datatype error =
    KeyError string            \<comment> \<open>a missing dictionary key or a missing row label\<close>
  | IndexError                 \<comment> \<open>list index out of range\<close>
  | ValueError_not_in_list string  \<comment> \<open>\<^verbatim>\<open>list.index\<close>: the value is not in the list\<close>
  | TypeError                  \<comment> \<open>\<^verbatim>\<open>"SeqId." + v\<close> where \<^verbatim>\<open>v\<close> is not a string\<close>
  | ValueError_length_mismatch \<comment> \<open>assigning column labels of the wrong length\<close>
  | ValueError_columns nat nat \<comment> \<open>n columns passed, passed data had m columns\<close>
  | ValueError_float string    \<comment> \<open>could not convert string to float: the cell\<close>

subsection \<open>The state of the line loop (lines 37--48)\<close>

record parse_state =
  curSection :: "string option"
  sample_type_field_i :: "nat option"
  row_check_field_i :: "nat option"
  av_Checksum :: "string option"               \<comment> \<open>\<^verbatim>\<open>adatVals['Checksum']\<close>, when the key is set\<close>
  av_Metadata :: "(string \<times> string) list"      \<comment> \<open>\<^verbatim>\<open>adatVals['Metadata']\<close>, in insertion order\<close>
  av_SampleAnnotNames :: "string list option"  \<comment> \<open>\<^verbatim>\<open>adatVals['SampleAnnotNames']\<close>, when set\<close>
  sampleAndIntensityData :: "string list list"
  sequenceData :: "string list list"
  sequenceDataIndex :: "string list"
  colPassFlag :: "bool list option"

definition init_state :: parse_state where
  "init_state =
     \<lparr> curSection = None, sample_type_field_i = None, row_check_field_i = None,
       av_Checksum = None, av_Metadata = [], av_SampleAnnotNames = None,
       sampleAndIntensityData = [], sequenceData = [], sequenceDataIndex = [],
       colPassFlag = None \<rparr>"

definition sectionTitles :: "string set" where
  "sectionTitles = {''^HEADER'', ''^COL_DATA'', ''^ROW_DATA'', ''^TABLE_BEGIN''}"

subsection \<open>Python list primitives\<close>

text \<open>\<^verbatim>\<open>xs.index(x)\<close>: the first position of \<open>x\<close>; \<open>None\<close> stands for the ValueError.\<close>

fun index_of :: "'a \<Rightarrow> 'a list \<Rightarrow> nat option" where
  "index_of x [] = None"
| "index_of x (y # ys) = (if x = y then Some 0 else map_option Suc (index_of x ys))"

text \<open>\<^verbatim>\<open>[i for (i, v) in zip(xs, flags) if v]\<close>: \<^verbatim>\<open>zip\<close> stops at the shorter list.\<close>

fun mask_filter :: "'a list \<Rightarrow> bool list \<Rightarrow> 'a list" where
  "mask_filter (x # xs) (v # vs) = (if v then x # mask_filter xs vs else mask_filter xs vs)"
| "mask_filter xs vs = []"

text \<open>
  Lines 75--76 and 94--96: \<^verbatim>\<open>if keepOnlyPasses and colPassFlag:\<close> filter by the mask. In
  the condition \<^verbatim>\<open>colPassFlag\<close> stands for its truth value: \<^verbatim>\<open>None\<close> and the empty list
  are false.
\<close>

definition apply_mask :: "bool \<Rightarrow> bool list option \<Rightarrow> 'a list \<Rightarrow> 'a list" where
  "apply_mask keepOnlyPasses m xs =
     (case m of
        None \<Rightarrow> xs
      | Some vs \<Rightarrow> if keepOnlyPasses \<and> vs \<noteq> [] then mask_filter xs vs else xs)"

subsection \<open>One iteration of the loop (lines 52--92)\<close>

text \<open>
  Lines 66--69 and 70--73 have one shape: when the flag is on and the offset is set, read
  the field at the offset and \<^verbatim>\<open>continue\<close> unless it is the wanted string.
\<close>

datatype verdict = Keep | Skip | Fail

definition field_check :: "bool \<Rightarrow> nat option \<Rightarrow> string \<Rightarrow> string list \<Rightarrow> verdict" where
  "field_check enabled field_i wanted slice =
     (if enabled then
        (case field_i of
           None \<Rightarrow> Keep
         | Some i \<Rightarrow>
             if length slice \<le> i then Fail
             else if slice ! i \<noteq> wanted then Skip
             else Keep)
      else Keep)"

text \<open>The first branch, lines 53--77: a row read while the section is \<^verbatim>\<open>^TABLE_BEGIN\<close>.\<close>

definition table_row :: "bool \<Rightarrow> bool \<Rightarrow> string list \<Rightarrow> parse_state \<Rightarrow> error + parse_state" where
  "table_row keepOnlyPasses keepOnlySamples row s =
     (case av_SampleAnnotNames s of
        None \<Rightarrow> Inl (KeyError ''SampleAnnotNames'')
      | Some sampleAnnotNames \<Rightarrow>
          let rowDataLen = length sampleAnnotNames in
          if length row \<le> rowDataLen then Inl IndexError
          else
            let curColName = row ! rowDataLen in
            if curColName \<noteq> [] then
              let curColAnnotSlice = drop (rowDataLen + 1) row;
                  s1 = s\<lparr> sequenceData := sequenceData s @ [curColAnnotSlice],
                          sequenceDataIndex := sequenceDataIndex s @ [curColName] \<rparr>
              in if keepOnlyPasses \<and> curColName = ''ColCheck''
                 then Inr (s1\<lparr> colPassFlag := Some (map (\<lambda>val. val = ''PASS'') curColAnnotSlice) \<rparr>)
                 else Inr s1
            else
              let curSampleAnnotSlice = take rowDataLen row in
              if curSampleAnnotSlice \<noteq> sampleAnnotNames then
                (case field_check keepOnlySamples (sample_type_field_i s) ''Sample'' curSampleAnnotSlice of
                   Fail \<Rightarrow> Inl IndexError
                 | Skip \<Rightarrow> Inr s
                 | Keep \<Rightarrow>
                    (case field_check keepOnlyPasses (row_check_field_i s) ''PASS'' curSampleAnnotSlice of
                       Fail \<Rightarrow> Inl IndexError
                     | Skip \<Rightarrow> Inr s
                     | Keep \<Rightarrow>
                         let curSomaReadoutVals =
                               apply_mask keepOnlyPasses (colPassFlag s) (drop (rowDataLen + 1) row)
                         in Inr (s\<lparr> sampleAndIntensityData :=
                                      sampleAndIntensityData s @ [curSampleAnnotSlice @ curSomaReadoutVals] \<rparr>)))
              else Inr s)"

text \<open>The other branches, lines 78--90, tried in the order of the \<^verbatim>\<open>elif\<close> chain.\<close>

definition name_row :: "string list \<Rightarrow> parse_state \<Rightarrow> error + parse_state" where
  "name_row row s =
     (case index_of ''SampleType'' row of
        None \<Rightarrow> Inl (ValueError_not_in_list ''SampleType'')
      | Some i \<Rightarrow>
          (case index_of ''RowCheck'' row of
             None \<Rightarrow> Inl (ValueError_not_in_list ''RowCheck'')
           | Some j \<Rightarrow>
               Inr (s\<lparr> sample_type_field_i := Some i, row_check_field_i := Some j,
                       av_SampleAnnotNames := Some row \<rparr>)))"

definition process_row :: "bool \<Rightarrow> bool \<Rightarrow> string list \<Rightarrow> parse_state \<Rightarrow> error + parse_state" where
  "process_row keepOnlyPasses keepOnlySamples row s =
     (if curSection s = Some ''^TABLE_BEGIN'' then table_row keepOnlyPasses keepOnlySamples row s
      else
        (case row of
           [] \<Rightarrow> Inl IndexError
         | row0 # rest \<Rightarrow>
             if row0 \<in> sectionTitles then Inr (s\<lparr> curSection := Some row0 \<rparr>)
             else if curSection s = None \<and> row0 = ''!Checksum'' then
               (case rest of
                  [] \<Rightarrow> Inl IndexError
                | row1 # _ \<Rightarrow> Inr (s\<lparr> av_Checksum := Some row1 \<rparr>))
             else if curSection s = Some ''^HEADER'' then
               (case rest of
                  [] \<Rightarrow> Inl IndexError
                | row1 # _ \<Rightarrow> Inr (s\<lparr> av_Metadata := AList.update row0 row1 (av_Metadata s) \<rparr>))
             else if curSection s = Some ''^ROW_DATA'' \<or> curSection s = Some ''^COL_DATA'' then
               (if curSection s = Some ''^ROW_DATA'' \<and> row0 = ''!Name'' then name_row rest s
                else Inr s)
             else Inr s))"

text \<open>The loop over the rows; the first exception ends the run.\<close>

fun process :: "bool \<Rightarrow> bool \<Rightarrow> string list list \<Rightarrow> parse_state \<Rightarrow> error + parse_state" where
  "process keepOnlyPasses keepOnlySamples [] s = Inr s"
| "process keepOnlyPasses keepOnlySamples (row # rows) s =
     (case process_row keepOnlyPasses keepOnlySamples row s of
        Inl e \<Rightarrow> Inl e
      | Inr s' \<Rightarrow> process keepOnlyPasses keepOnlySamples rows s')"

subsection \<open>The tables (lines 94--110)\<close>

text \<open>
  What the code asks of pandas is modelled as follows.
  \<^item> \<^verbatim>\<open>pd.DataFrame(rows, ...)\<close> on a list of lists has as many columns as the longest
    row; a shorter row is filled up with missing values (\<open>None\<close>).
  \<^item> \<^verbatim>\<open>frame.loc['SeqId']\<close> raises KeyError when no row has the label; it is that row
    when exactly one has; when several have, it is a frame, and iterating a frame gives
    its integer column labels, so that \<^verbatim>\<open>"SeqId." + v\<close> raises TypeError.
  \<^item> \<^verbatim>\<open>pd.DataFrame(rows, columns=df_cols)\<close> on a non-empty list raises ValueError
    unless the longest row has exactly \<^verbatim>\<open>len(df_cols)\<close> fields.
  \<^item> \<^verbatim>\<open>astype\<close> with a dictionary converts every column whose label is a key, column
    by column in order, each from its first row on; a missing value becomes NaN and a
    string is converted as \<^verbatim>\<open>float(s)\<close> does, which raises ValueError naming the string.
  The conversion of one string, \<^verbatim>\<open>float(s)\<close>, is the parameter \<open>to_float\<close>; \<open>None\<close> is
  its ValueError. The type \<open>'f\<close> stands for the 64-bit floating-point numbers.
\<close>

definition max_width :: "'a list list \<Rightarrow> nat" where
  "max_width rows = foldr (\<lambda>r w. max (length r) w) rows 0"

definition pad :: "nat \<Rightarrow> 'a list \<Rightarrow> 'a option list" where
  "pad w r = map Some r @ replicate (w - length r) None"

record seq_frame =
  sf_index :: "string list"
  sf_columns :: "string list"
  sf_values :: "string option list list"

datatype 'f cell =
    Obj "string option"  \<comment> \<open>a cell of an object column: a string, or missing\<close>
  | F64 "'f option"      \<comment> \<open>a cell of a float64 column; \<open>None\<close> is the NaN of a missing value\<close>

record 'f sample_frame =
  df_columns :: "string list"
  df_values :: "'f cell list list"

record 'f adat =
  Checksum :: "string option"
  Metadata :: "(string \<times> string) list"
  SampleAnnotNames :: "string list"
  SequenceAnnotNames :: "string list"
  SequenceData :: seq_frame
  SampleAndIntensityData :: "'f sample_frame"

text \<open>Line 102: \<^verbatim>\<open>["SeqId." + SeqIdVal for SeqIdVal in sequenceData.loc['SeqId']]\<close>.\<close>

fun prefix_SeqId :: "string option list \<Rightarrow> error + string list" where
  "prefix_SeqId [] = Inr []"
| "prefix_SeqId (None # vs) = Inl TypeError"
| "prefix_SeqId (Some v # vs) =
     (case prefix_SeqId vs of Inl e \<Rightarrow> Inl e | Inr ls \<Rightarrow> Inr ((''SeqId.'' @ v) # ls))"

definition rows_labelled :: "string \<Rightarrow> string list \<Rightarrow> 'a list \<Rightarrow> 'a list" where
  "rows_labelled l index rows = map snd (filter (\<lambda>p. fst p = l) (zip index rows))"

definition loc_SeqId :: "string list \<Rightarrow> string option list list \<Rightarrow> nat \<Rightarrow> error + string list" where
  "loc_SeqId index vals w =
     (case rows_labelled ''SeqId'' index vals of
        [] \<Rightarrow> Inl (KeyError ''SeqId'')
      | [r] \<Rightarrow> prefix_SeqId r
      | _ \<Rightarrow> if w = 0 then Inr [] else Inl TypeError)"

text \<open>Lines 94--105: the two frames, before the readout columns are converted.\<close>

definition assemble ::
  "bool \<Rightarrow> parse_state \<Rightarrow> error + (string list \<times> string list \<times> seq_frame \<times> string option list list)" where
  "assemble keepOnlyPasses s =
     (let seqRows = map (apply_mask keepOnlyPasses (colPassFlag s)) (sequenceData s);
          w = max_width seqRows;
          seqValues = map (pad w) seqRows
      in case av_SampleAnnotNames s of
           None \<Rightarrow> Inl (KeyError ''SampleAnnotNames'')
         | Some sampleAnnotNames \<Rightarrow>
             (case loc_SeqId (sequenceDataIndex s) seqValues w of
                Inl e \<Rightarrow> Inl e
              | Inr seqIds \<Rightarrow>
                  if length seqIds \<noteq> w then Inl ValueError_length_mismatch
                  else
                    let df_cols = sampleAnnotNames @ seqIds;
                        rows = sampleAndIntensityData s
                    in if rows \<noteq> [] \<and> max_width rows \<noteq> length df_cols
                       then Inl (ValueError_columns (length df_cols) (max_width rows))
                       else Inr (sampleAnnotNames, seqIds,
                                 \<lparr> sf_index = sequenceDataIndex s, sf_columns = seqIds,
                                   sf_values = seqValues \<rparr>,
                                 map (pad (length df_cols)) rows)))"

text \<open>Lines 107--110: \<^verbatim>\<open>astype\<close> with \<^verbatim>\<open>'float64'\<close> for every label of \<^verbatim>\<open>seqIds\<close>.\<close>

definition column_strings :: "nat \<Rightarrow> string option list list \<Rightarrow> string list" where
  "column_strings j rows =
     concat (map (\<lambda>r. case r ! j of None \<Rightarrow> [] | Some c \<Rightarrow> [c]) (filter (\<lambda>r. j < length r) rows))"

definition converted_strings :: "string list \<Rightarrow> string list \<Rightarrow> string option list list \<Rightarrow> string list" where
  "converted_strings seqIds df_cols rows =
     concat (map (\<lambda>j. if df_cols ! j \<in> set seqIds then column_strings j rows else [])
                 [0..<length df_cols])"

definition astype_cell :: "(string \<Rightarrow> 'f option) \<Rightarrow> string list \<Rightarrow> string \<times> string option \<Rightarrow> 'f cell" where
  "astype_cell to_float seqIds lc =
     (if fst lc \<in> set seqIds
      then F64 (case snd lc of None \<Rightarrow> None | Some c \<Rightarrow> to_float c)
      else Obj (snd lc))"

definition astype ::
  "(string \<Rightarrow> 'f option) \<Rightarrow> string list \<Rightarrow> string list \<Rightarrow> string option list list \<Rightarrow> error + 'f cell list list" where
  "astype to_float seqIds df_cols rows =
     (case List.find (\<lambda>c. to_float c = None) (converted_strings seqIds df_cols rows) of
        Some c \<Rightarrow> Inl (ValueError_float c)
      | None \<Rightarrow> Inr (map (\<lambda>r. map (astype_cell to_float seqIds) (zip df_cols r)) rows))"

definition finalize :: "(string \<Rightarrow> 'f option) \<Rightarrow> bool \<Rightarrow> parse_state \<Rightarrow> error + 'f adat" where
  "finalize to_float keepOnlyPasses s =
     (case assemble keepOnlyPasses s of
        Inl e \<Rightarrow> Inl e
      | Inr (sampleAnnotNames, seqIds, sequenceFrame, rows) \<Rightarrow>
          (case astype to_float seqIds (sampleAnnotNames @ seqIds) rows of
             Inl e \<Rightarrow> Inl e
           | Inr vals \<Rightarrow>
               Inr \<lparr> Checksum = av_Checksum s, Metadata = av_Metadata s,
                     SampleAnnotNames = sampleAnnotNames,
                     SequenceAnnotNames = sequenceDataIndex s,
                     SequenceData = sequenceFrame,
                     SampleAndIntensityData =
                       \<lparr> df_columns = sampleAnnotNames @ seqIds, df_values = vals \<rparr> \<rparr>))"

subsection \<open>The function (lines 35--115)\<close>

definition readAdat :: "(string \<Rightarrow> 'f option) \<Rightarrow> bool \<Rightarrow> bool \<Rightarrow> string list list \<Rightarrow> error + 'f adat" where
  "readAdat to_float keepOnlyPasses keepOnlySamples rows =
     (case process keepOnlyPasses keepOnlySamples rows init_state of
        Inl e \<Rightarrow> Inl e
      | Inr s \<Rightarrow> finalize to_float keepOnlyPasses s)"

subsection \<open>A conversion for the examples\<close>

text \<open>
  Plain decimal literals (an optional minus sign, digits, an optional point and more
  digits) are among the strings that \<^verbatim>\<open>float\<close> accepts. The examples below run
  \<open>readAdat\<close> with this conversion; a value \<open>(m, k)\<close> stands for \<open>m / 10 ^ k\<close>.
\<close>

definition digit_of :: "char \<Rightarrow> nat option" where
  "digit_of c = (let n = (of_char c :: nat) in if 48 \<le> n \<and> n \<le> 57 then Some (n - 48) else None)"

fun digits :: "nat \<Rightarrow> string \<Rightarrow> (nat \<times> string) option" where
  "digits acc [] = Some (acc, [])"
| "digits acc (c # cs) =
     (if c = CHR ''.'' then Some (acc, cs)
      else case digit_of c of None \<Rightarrow> None | Some d \<Rightarrow> digits (10 * acc + d) cs)"

fun fraction :: "nat \<Rightarrow> nat \<Rightarrow> string \<Rightarrow> (nat \<times> nat) option" where
  "fraction acc k [] = Some (acc, k)"
| "fraction acc k (c # cs) =
     (case digit_of c of None \<Rightarrow> None | Some d \<Rightarrow> fraction (10 * acc + d) (Suc k) cs)"

definition unsigned_decimal :: "string \<Rightarrow> (nat \<times> nat) option" where
  "unsigned_decimal s =
     (case s of
        [] \<Rightarrow> None
      | c # cs \<Rightarrow>
          (case digit_of c of
             None \<Rightarrow> None
           | Some d \<Rightarrow>
               (case digits d cs of
                  None \<Rightarrow> None
                | Some (m, rest) \<Rightarrow> fraction m 0 rest)))"

definition decimal_literal :: "string \<Rightarrow> (int \<times> nat) option" where
  "decimal_literal s =
     (case s of
        [] \<Rightarrow> None
      | c # cs \<Rightarrow>
          if c = CHR ''-''
          then map_option (\<lambda>(m, k). (- int m, k)) (unsigned_decimal cs)
          else map_option (\<lambda>(m, k). (int m, k)) (unsigned_decimal s))"

subsection \<open>The sections of an input\<close>

text \<open>
  The properties below speak about the rows of an input: which of them come before the
  \<^verbatim>\<open>^TABLE_BEGIN\<close> marker, which section a row is read in, which rows of the table are
  sample-annotation rows. These functions read that off the input alone; the lemmas of
  the next section relate them to what the loop does.
\<close>

definition is_marker :: "string list \<Rightarrow> bool" where
  "is_marker row = (case row of [] \<Rightarrow> False | row0 # _ \<Rightarrow> row0 \<in> sectionTitles)"

definition is_table_begin :: "string list \<Rightarrow> bool" where
  "is_table_begin row = (case row of [] \<Rightarrow> False | row0 # _ \<Rightarrow> row0 = ''^TABLE_BEGIN'')"

text \<open>Lines 53 and 78--79: once the section is \<^verbatim>\<open>^TABLE_BEGIN\<close> no marker is looked for.\<close>

definition next_section :: "string option \<Rightarrow> string list \<Rightarrow> string option" where
  "next_section sec row =
     (if sec = Some ''^TABLE_BEGIN'' then sec
      else case row of [] \<Rightarrow> sec | row0 # _ \<Rightarrow> if row0 \<in> sectionTitles then Some row0 else sec)"

fun track_section :: "string option \<Rightarrow> string list list \<Rightarrow> string option" where
  "track_section sec [] = sec"
| "track_section sec (row # rows) = track_section (next_section sec row) rows"

text \<open>Whether some row is read as the field-name row: a \<^verbatim>\<open>!Name\<close> row of \<^verbatim>\<open>^ROW_DATA\<close>.\<close>

definition is_name_row :: "string option \<Rightarrow> string list \<Rightarrow> bool" where
  "is_name_row sec row =
     (sec = Some ''^ROW_DATA'' \<and> (case row of [] \<Rightarrow> False | row0 # _ \<Rightarrow> row0 = ''!Name''))"

fun saw_name_row :: "string option \<Rightarrow> string list list \<Rightarrow> bool" where
  "saw_name_row sec [] = False"
| "saw_name_row sec (row # rows) =
     (is_name_row sec row \<or> saw_name_row (next_section sec row) rows)"

text \<open>The rows before the first \<^verbatim>\<open>^TABLE_BEGIN\<close> marker, and the rows after it.\<close>

definition header_part :: "string list list \<Rightarrow> string list list" where
  "header_part rows = takeWhile (\<lambda>r. \<not> is_table_begin r) rows"

definition table_part :: "string list list \<Rightarrow> string list list" where
  "table_part rows = drop 1 (dropWhile (\<lambda>r. \<not> is_table_begin r) rows)"

subsection \<open>The rows of the table\<close>

text \<open>
  With \<open>names\<close> the field names of the sample annotations: a row of the table is a
  sample-annotation row when its field at offset \<open>length names\<close> is empty, and a
  column-annotation row labelled by that field otherwise.
\<close>

definition is_sample_row :: "string list \<Rightarrow> string list \<Rightarrow> bool" where
  "is_sample_row names row = (length names < length row \<and> row ! length names = [])"

definition sample_rows :: "string list \<Rightarrow> string list list \<Rightarrow> string list list" where
  "sample_rows names tbl = filter (is_sample_row names) tbl"

definition repeats_names :: "string list \<Rightarrow> string list \<Rightarrow> bool" where
  "repeats_names names row = (take (length names) row = names)"

definition without_repeats :: "string list \<Rightarrow> string list list \<Rightarrow> string list list" where
  "without_repeats names tbl = filter (\<lambda>r. \<not> repeats_names names r) tbl"

text \<open>The value of a named field of a sample-annotation row.\<close>

definition field_of :: "string list \<Rightarrow> string \<Rightarrow> string list \<Rightarrow> string option" where
  "field_of names fld row =
     (case index_of fld names of
        None \<Rightarrow> None
      | Some i \<Rightarrow> if i < length row then Some (row ! i) else None)"

text \<open>
  The two configured filters: with \<open>keepOnlySamples\<close> the \<^verbatim>\<open>SampleType\<close> must be
  \<^verbatim>\<open>Sample\<close>, with \<open>keepOnlyPasses\<close> the \<^verbatim>\<open>RowCheck\<close> must be \<^verbatim>\<open>PASS\<close>.
\<close>

definition survives :: "bool \<Rightarrow> bool \<Rightarrow> string list \<Rightarrow> string list \<Rightarrow> bool" where
  "survives keepOnlyPasses keepOnlySamples names row =
     (\<not> (keepOnlySamples \<and> field_of names ''SampleType'' row \<noteq> Some ''Sample'') \<and>
      \<not> (keepOnlyPasses \<and> field_of names ''RowCheck'' row \<noteq> Some ''PASS''))"

definition configured_filters :: "bool \<Rightarrow> bool \<Rightarrow> string list \<Rightarrow> string list list \<Rightarrow> string list list" where
  "configured_filters keepOnlyPasses keepOnlySamples names tbl =
     filter (survives keepOnlyPasses keepOnlySamples names) tbl"


definition first_labelled :: "string \<Rightarrow> string list \<Rightarrow> 'a list \<Rightarrow> 'a option" where
  "first_labelled l index rows =
     (case rows_labelled l index rows of [] \<Rightarrow> None | r # _ \<Rightarrow> Some r)"

definition last_labelled :: "string \<Rightarrow> string list \<Rightarrow> 'a list \<Rightarrow> 'a option" where
  "last_labelled l index rows =
     (case rev (rows_labelled l index rows) of [] \<Rightarrow> None | r # _ \<Rightarrow> Some r)"

definition is_column_row :: "string list \<Rightarrow> string list \<Rightarrow> bool" where
  "is_column_row names row = (length names < length row \<and> row ! length names \<noteq> [])"

definition column_rows :: "string list \<Rightarrow> string list list \<Rightarrow> string list list" where
  "column_rows names tbl = filter (is_column_row names) tbl"

definition column_labels :: "string list \<Rightarrow> string list list \<Rightarrow> string list" where
  "column_labels names tbl = map (\<lambda>r. r ! length names) (column_rows names tbl)"

definition column_values :: "string list \<Rightarrow> string list list \<Rightarrow> string list list" where
  "column_values names tbl = map (drop (length names + 1)) (column_rows names tbl)"

text \<open>The \<^verbatim>\<open>!Checksum\<close> lines before the first section marker.\<close>

definition checksum_lines :: "string list list \<Rightarrow> string list list" where
  "checksum_lines rows =
     filter (\<lambda>r. take 1 r = [''!Checksum'']) (takeWhile (\<lambda>r. \<not> is_marker r) rows)"

text \<open>A list of rows, each filtered down to the positions where the mask is true.\<close>

definition mask_rows :: "bool list \<Rightarrow> 'a list list \<Rightarrow> 'a list list" where
  "mask_rows m rows = map (\<lambda>r. mask_filter r m) rows"

subsection \<open>Invariants of the loop\<close>

text \<open>
  Once the field names are set, the two offsets are the first positions of
  \<^verbatim>\<open>SampleType\<close> and \<^verbatim>\<open>RowCheck\<close> among them (lines 88--90 set the three together).
\<close>

definition offsets_ok :: "parse_state \<Rightarrow> bool" where
  "offsets_ok s =
     (case av_SampleAnnotNames s of
        None \<Rightarrow> True
      | Some names \<Rightarrow>
          sample_type_field_i s = index_of ''SampleType'' names \<and>
          row_check_field_i s = index_of ''RowCheck'' names \<and>
          ''SampleType'' \<in> set names \<and> ''RowCheck'' \<in> set names)"

text \<open>
  The column-annotation rows are kept as two lists of one length, and the mask is the
  one of the last \<^verbatim>\<open>ColCheck\<close> row read so far (line 61), when \<open>keepOnlyPasses\<close> is on.
\<close>

definition mask_ok :: "bool \<Rightarrow> parse_state \<Rightarrow> bool" where
  "mask_ok keepOnlyPasses s =
     (length (sequenceDataIndex s) = length (sequenceData s) \<and>
      colPassFlag s =
        (if keepOnlyPasses
         then map_option (map (\<lambda>val. val = ''PASS''))
                (last_labelled ''ColCheck'' (sequenceDataIndex s) (sequenceData s))
         else None))"

text \<open>The sample rows that the loop keeps: lines 65--73.\<close>

definition kept_rows :: "bool \<Rightarrow> bool \<Rightarrow> string list \<Rightarrow> string list list \<Rightarrow> string list list" where
  "kept_rows keepOnlyPasses keepOnlySamples names tbl =
     configured_filters keepOnlyPasses keepOnlySamples names
       (without_repeats names (sample_rows names tbl))"

subsection \<open>Example inputs\<close>

text \<open>A table with one protein, read up to its \<^verbatim>\<open>SeqId\<close> row, and the state there.\<close>

definition ex_stray_pre :: "string list list" where
  "ex_stray_pre =
     [[''^ROW_DATA''], [''!Name'', ''SampleType'', ''RowCheck''], [''^TABLE_BEGIN''],
      ['''', '''', ''SeqId'', ''10000-28'']]"

definition ex_stray_state :: parse_state where
  "ex_stray_state =
     \<lparr> curSection = Some ''^TABLE_BEGIN'', sample_type_field_i = Some 0,
       row_check_field_i = Some 1, av_Checksum = None, av_Metadata = [],
       av_SampleAnnotNames = Some [''SampleType'', ''RowCheck''],
       sampleAndIntensityData = [], sequenceData = [[''10000-28'']],
       sequenceDataIndex = [''SeqId''], colPassFlag = None \<rparr>"

definition ex_stray_result :: "(int \<times> nat) adat" where
  "ex_stray_result =
     \<lparr> Checksum = None, Metadata = [], SampleAnnotNames = [''SampleType'', ''RowCheck''],
       SequenceAnnotNames = [''SeqId''],
       SequenceData = \<lparr> sf_index = [''SeqId''], sf_columns = [''SeqId.10000-28''],
                        sf_values = [[Some ''10000-28'']] \<rparr>,
       SampleAndIntensityData =
         \<lparr> df_columns = [''SampleType'', ''RowCheck'', ''SeqId.10000-28''],
           df_values = [[Obj (Some ''Calibrator''), Obj (Some ''FAIL''), F64 (Some (25, 1))]] \<rparr> \<rparr>"

text \<open>
  A table of two proteins, the second of which fails its \<^verbatim>\<open>ColCheck\<close>, and five
  sample rows: a calibrator, a sample that fails its \<^verbatim>\<open>RowCheck\<close>, a repetition of
  the field names, and two samples that pass.
\<close>

definition ex_table :: "string list list" where
  "ex_table =
     [[''!Checksum'', ''c0ffee''],
      [''^HEADER''], [''!Title'', ''Plate 1''],
      [''^ROW_DATA''], [''!Name'', ''SampleId'', ''SampleType'', ''RowCheck''],
      [''^TABLE_BEGIN''],
      ['''', '''', '''', ''SeqId'', ''10000-28'', ''10001-7''],
      ['''', '''', '''', ''ColCheck'', ''PASS'', ''FAIL''],
      [''S1'', ''Sample'', ''PASS'', '''', ''1.5'', ''2.5''],
      [''S2'', ''Calibrator'', ''PASS'', '''', ''3.5'', ''4.5''],
      [''S3'', ''Sample'', ''FAIL'', '''', ''5.5'', ''6.5''],
      [''SampleId'', ''SampleType'', ''RowCheck'', '''', ''x'', ''y''],
      [''S4'', ''Sample'', ''PASS'', '''', ''-7'', ''8.25'']]"

definition ex_table_result :: "(int \<times> nat) adat" where
  "ex_table_result =
     \<lparr> Checksum = Some ''c0ffee'', Metadata = [(''!Title'', ''Plate 1'')],
       SampleAnnotNames = [''SampleId'', ''SampleType'', ''RowCheck''],
       SequenceAnnotNames = [''SeqId'', ''ColCheck''],
       SequenceData =
         \<lparr> sf_index = [''SeqId'', ''ColCheck''], sf_columns = [''SeqId.10000-28''],
           sf_values = [[Some ''10000-28''], [Some ''PASS'']] \<rparr>,
       SampleAndIntensityData =
         \<lparr> df_columns = [''SampleId'', ''SampleType'', ''RowCheck'', ''SeqId.10000-28''],
           df_values =
             [[Obj (Some ''S1''), Obj (Some ''Sample''), Obj (Some ''PASS''), F64 (Some (15, 1))],
              [Obj (Some ''S4''), Obj (Some ''Sample''), Obj (Some ''PASS''), F64 (Some (- 7, 0))]] \<rparr> \<rparr>"

text \<open>
  One protein and two sample-annotation rows, to be read with both flags off: a
  repetition of the field names, and a calibrator that fails its \<^verbatim>\<open>RowCheck\<close>.
\<close>

definition ex_unfiltered :: "string list list" where
  "ex_unfiltered =
     [[''^ROW_DATA''], [''!Name'', ''SampleType'', ''RowCheck''],
      [''^TABLE_BEGIN''],
      ['''', '''', ''SeqId'', ''10000-28''],
      [''SampleType'', ''RowCheck'', '''', ''1.5''],
      [''Calibrator'', ''FAIL'', '''', ''2.5'']]"

text \<open>An input whose table begins before any field-name row was read.\<close>

definition ex_no_names :: "string list list" where
  "ex_no_names = [[''^HEADER''], [''!Title'', ''Plate 1''], [''^ROW_DATA''],
                  [''!Type'', ''String'', ''String''], [''^TABLE_BEGIN'']]"

definition ex_no_names_state :: parse_state where
  "ex_no_names_state =
     \<lparr> curSection = Some ''^TABLE_BEGIN'', sample_type_field_i = None,
       row_check_field_i = None, av_Checksum = None, av_Metadata = [(''!Title'', ''Plate 1'')],
       av_SampleAnnotNames = None, sampleAndIntensityData = [], sequenceData = [],
       sequenceDataIndex = [], colPassFlag = None \<rparr>"

text \<open>A table without a \<^verbatim>\<open>SeqId\<close> row.\<close>

definition ex_no_SeqId :: "string list list" where
  "ex_no_SeqId =
     [[''^ROW_DATA''], [''!Name'', ''SampleType'', ''RowCheck''], [''^TABLE_BEGIN''],
      ['''', '''', ''Target'', ''IL-6''],
      [''Sample'', ''PASS'', '''', ''1.5'']]"

definition ex_no_SeqId_state :: parse_state where
  "ex_no_SeqId_state =
     \<lparr> curSection = Some ''^TABLE_BEGIN'', sample_type_field_i = Some 0,
       row_check_field_i = Some 1, av_Checksum = None, av_Metadata = [],
       av_SampleAnnotNames = Some [''SampleType'', ''RowCheck''],
       sampleAndIntensityData = [[''Sample'', ''PASS'', ''1.5'']],
       sequenceData = [[''IL-6'']], sequenceDataIndex = [''Target''], colPassFlag = None \<rparr>"

text \<open>A \<^verbatim>\<open>!Checksum\<close> line before the first marker and another one in the header.\<close>

definition ex_checksums :: "string list list" where
  "ex_checksums =
     [[''!Checksum'', ''c0ffee''],
      [''^HEADER''], [''!Title'', ''Plate 1''], [''!Checksum'', ''decaf''],
      [''^ROW_DATA''], [''!Name'', ''SampleType'', ''RowCheck''],
      [''^TABLE_BEGIN''],
      ['''', '''', ''SeqId'', ''10000-28''],
      [''Sample'', ''PASS'', '''', ''1.5'']]"

definition ex_checksums_result :: "(int \<times> nat) adat" where
  "ex_checksums_result =
     \<lparr> Checksum = Some ''c0ffee'',
       Metadata = [(''!Title'', ''Plate 1''), (''!Checksum'', ''decaf'')],
       SampleAnnotNames = [''SampleType'', ''RowCheck''],
       SequenceAnnotNames = [''SeqId''],
       SequenceData = \<lparr> sf_index = [''SeqId''], sf_columns = [''SeqId.10000-28''],
                        sf_values = [[Some ''10000-28'']] \<rparr>,
       SampleAndIntensityData =
         \<lparr> df_columns = [''SampleType'', ''RowCheck'', ''SeqId.10000-28''],
           df_values = [[Obj (Some ''Sample''), Obj (Some ''PASS''), F64 (Some (15, 1))]] \<rparr> \<rparr>"





text \<open>
  A table whose \<^verbatim>\<open>ColCheck\<close> row has a label and no values, read with
  \<open>keepOnlyPasses\<close> on.
\<close>

definition ex_empty_colcheck :: "string list list" where
  "ex_empty_colcheck =
     [[''^ROW_DATA''], [''!Name'', ''SampleType'', ''RowCheck''], [''^TABLE_BEGIN''],
      ['''', '''', ''SeqId'', ''10000-28''],
      ['''', '''', ''ColCheck''],
      [''Sample'', ''PASS'', '''', ''1.5'']]"

definition ex_empty_colcheck_state :: parse_state where
  "ex_empty_colcheck_state =
     \<lparr> curSection = Some ''^TABLE_BEGIN'', sample_type_field_i = Some 0,
       row_check_field_i = Some 1, av_Checksum = None, av_Metadata = [],
       av_SampleAnnotNames = Some [''SampleType'', ''RowCheck''],
       sampleAndIntensityData = [[''Sample'', ''PASS'', ''1.5'']],
       sequenceData = [[''10000-28''], []], sequenceDataIndex = [''SeqId'', ''ColCheck''],
       colPassFlag = Some [] \<rparr>"

definition ex_empty_colcheck_result :: "(int \<times> nat) adat" where
  "ex_empty_colcheck_result =
     \<lparr> Checksum = None, Metadata = [], SampleAnnotNames = [''SampleType'', ''RowCheck''],
       SequenceAnnotNames = [''SeqId'', ''ColCheck''],
       SequenceData = \<lparr> sf_index = [''SeqId'', ''ColCheck''], sf_columns = [''SeqId.10000-28''],
                        sf_values = [[Some ''10000-28''], [None]] \<rparr>,
       SampleAndIntensityData =
         \<lparr> df_columns = [''SampleType'', ''RowCheck'', ''SeqId.10000-28''],
           df_values = [[Obj (Some ''Sample''), Obj (Some ''PASS''), F64 (Some (15, 1))]] \<rparr> \<rparr>"

text \<open>The states of \<open>ex_table\<close> before and after its first sample row, and at the end.\<close>

definition ex_table_before :: parse_state where
  "ex_table_before =
     \<lparr> curSection = Some ''^TABLE_BEGIN'', sample_type_field_i = Some 1,
       row_check_field_i = Some 2, av_Checksum = Some ''c0ffee'',
       av_Metadata = [(''!Title'', ''Plate 1'')],
       av_SampleAnnotNames = Some [''SampleId'', ''SampleType'', ''RowCheck''],
       sampleAndIntensityData = [],
       sequenceData = [[''10000-28'', ''10001-7''], [''PASS'', ''FAIL'']],
       sequenceDataIndex = [''SeqId'', ''ColCheck''],
       colPassFlag = Some [True, False] \<rparr>"

definition ex_table_after :: parse_state where
  "ex_table_after =
     ex_table_before\<lparr> sampleAndIntensityData := [[''S1'', ''Sample'', ''PASS'', ''1.5'']] \<rparr>"

definition ex_table_end :: parse_state where
  "ex_table_end =
     ex_table_before\<lparr> sampleAndIntensityData :=
       [[''S1'', ''Sample'', ''PASS'', ''1.5''], [''S4'', ''Sample'', ''PASS'', ''-7'']] \<rparr>"

text \<open>A table whose \<^verbatim>\<open>ColCheck\<close> row comes after a sample row.\<close>

definition ex_late_pre :: "string list list" where
  "ex_late_pre =
     [[''^ROW_DATA''], [''!Name'', ''SampleType'', ''RowCheck''], [''^TABLE_BEGIN''],
      ['''', '''', ''SeqId'', ''10000-28'', ''10001-7'']]"

definition ex_late_before :: parse_state where
  "ex_late_before =
     \<lparr> curSection = Some ''^TABLE_BEGIN'', sample_type_field_i = Some 0,
       row_check_field_i = Some 1, av_Checksum = None, av_Metadata = [],
       av_SampleAnnotNames = Some [''SampleType'', ''RowCheck''],
       sampleAndIntensityData = [], sequenceData = [[''10000-28'', ''10001-7'']],
       sequenceDataIndex = [''SeqId''], colPassFlag = None \<rparr>"

definition ex_late_after :: parse_state where
  "ex_late_after =
     ex_late_before\<lparr> sampleAndIntensityData := [[''Sample'', ''PASS'', ''1.5'', ''2.5'']] \<rparr>"

definition ex_late_end :: parse_state where
  "ex_late_end =
     ex_late_after\<lparr> sequenceData := [[''10000-28'', ''10001-7''], [''PASS'', ''FAIL'']],
                    sequenceDataIndex := [''SeqId'', ''ColCheck''],
                    colPassFlag := Some [True, False] \<rparr>"

section \<open>Properties\<close>

subsection \<open>The loop, row by row\<close>

lemma process_append:
  "process kp ks (xs @ ys) s =
     (case process kp ks xs s of Inl e \<Rightarrow> Inl e | Inr s' \<Rightarrow> process kp ks ys s')"
  by (induction xs arbitrary: s) (auto split: sum.splits)

lemma index_of_None: "index_of x xs = None \<longleftrightarrow> x \<notin> set xs"
  by (induction xs) auto

lemma index_of_Some: "index_of x xs = Some i \<Longrightarrow> i < length xs \<and> xs ! i = x"
  by (induction xs arbitrary: i) (auto split: if_splits)

subsection \<open>What one row does\<close>

lemma table_row_cases:
  assumes "table_row kp ks row s = Inr s'"
  obtains (column) names where
      "av_SampleAnnotNames s = Some names" "length names < length row"
      "row ! length names \<noteq> []"
      "s' = s\<lparr> sequenceData := sequenceData s @ [drop (length names + 1) row],
                sequenceDataIndex := sequenceDataIndex s @ [row ! length names],
                colPassFlag := (if kp \<and> row ! length names = ''ColCheck''
                                then Some (map (\<lambda>val. val = ''PASS'') (drop (length names + 1) row))
                                else colPassFlag s) \<rparr>"
  | (skipped) names where
      "av_SampleAnnotNames s = Some names" "length names < length row"
      "row ! length names = []" "s' = s"
      "take (length names) row = names \<or>
       field_check ks (sample_type_field_i s) ''Sample'' (take (length names) row) = Skip \<or>
       field_check kp (row_check_field_i s) ''PASS'' (take (length names) row) = Skip"
  | (kept) names where
      "av_SampleAnnotNames s = Some names" "length names < length row"
      "row ! length names = []" "take (length names) row \<noteq> names"
      "field_check ks (sample_type_field_i s) ''Sample'' (take (length names) row) = Keep"
      "field_check kp (row_check_field_i s) ''PASS'' (take (length names) row) = Keep"
      "s' = s\<lparr> sampleAndIntensityData := sampleAndIntensityData s @
                  [take (length names) row @
                   apply_mask kp (colPassFlag s) (drop (length names + 1) row)] \<rparr>"
proof (cases "av_SampleAnnotNames s")
  case None
  then show ?thesis using assms by (simp add: table_row_def)
next
  case (Some names)
  have len: "length names < length row"
    using assms Some by (simp add: table_row_def Let_def split: if_splits)
  show ?thesis
  proof (cases "row ! length names = []")
    case False
    then show ?thesis
      using assms Some len column [of names]
      by (auto simp: table_row_def Let_def split: if_splits)
  next
    case True
    show ?thesis
    proof (cases "take (length names) row = names")
      case same: True
      then have "s' = s" using assms Some len True by (simp add: table_row_def Let_def)
      then show ?thesis using skipped [of names] Some len True same by simp
    next
      case differs: False
      show ?thesis
      proof (cases "field_check ks (sample_type_field_i s) ''Sample'' (take (length names) row)")
        case Fail
        then show ?thesis using assms Some len True differs by (simp add: table_row_def Let_def)
      next
        case Skip
        then have "s' = s" using assms Some len True differs by (simp add: table_row_def Let_def)
        then show ?thesis using skipped [of names] Some len True Skip by simp
      next
        case k1: Keep
        show ?thesis
        proof (cases "field_check kp (row_check_field_i s) ''PASS'' (take (length names) row)")
          case Fail
          then show ?thesis using assms Some len True differs k1 by (simp add: table_row_def Let_def)
        next
          case Skip
          then have "s' = s" using assms Some len True differs k1 by (simp add: table_row_def Let_def)
          then show ?thesis using skipped [of names] Some len True Skip by simp
        next
          case k2: Keep
          then have "s' = s\<lparr> sampleAndIntensityData := sampleAndIntensityData s @
                  [take (length names) row @
                   apply_mask kp (colPassFlag s) (drop (length names + 1) row)] \<rparr>"
            using assms Some len True differs k1 by (simp add: table_row_def Let_def)
          then show ?thesis using kept [of names] Some len True differs k1 k2 by simp
        qed
      qed
    qed
  qed
qed

lemma header_row_cases:
  assumes "process_row kp ks row s = Inr s'" and "curSection s \<noteq> Some ''^TABLE_BEGIN''"
  obtains (marker) row0 rest where
      "row = row0 # rest" "row0 \<in> sectionTitles" "s' = s\<lparr> curSection := Some row0 \<rparr>"
  | (checksum) v rest where
      "row = ''!Checksum'' # v # rest" "curSection s = None"
      "s' = s\<lparr> av_Checksum := Some v \<rparr>"
  | (metadata) k v rest where
      "row = k # v # rest" "k \<notin> sectionTitles" "curSection s = Some ''^HEADER''"
      "s' = s\<lparr> av_Metadata := AList.update k v (av_Metadata s) \<rparr>"
  | (name) flds where
      "row = ''!Name'' # flds" "curSection s = Some ''^ROW_DATA''" "name_row flds s = Inr s'"
  | (other) row0 rest where
      "row = row0 # rest" "row0 \<notin> sectionTitles" "curSection s \<noteq> Some ''^HEADER''"
      "\<not> (curSection s = None \<and> row0 = ''!Checksum'')"
      "\<not> (curSection s = Some ''^ROW_DATA'' \<and> row0 = ''!Name'')" "s' = s"
proof (cases row)
  case Nil
  then show ?thesis using assms by (simp add: process_row_def)
next
  case (Cons row0 rest)
  show ?thesis
  proof (cases "row0 \<in> sectionTitles")
    case True
    then show ?thesis using assms Cons marker [of row0 rest] by (simp add: process_row_def)
  next
    case notitle: False
    show ?thesis
    proof (cases "curSection s = None \<and> row0 = ''!Checksum''")
      case True
      then show ?thesis
        using assms Cons notitle checksum
        by (cases rest) (simp_all add: process_row_def)
    next
      case nocheck: False
      show ?thesis
      proof (cases "curSection s = Some ''^HEADER''")
        case True
        then show ?thesis
          using assms Cons notitle nocheck metadata [of row0]
          by (cases rest) (simp_all add: process_row_def)
      next
        case nohdr: False
        show ?thesis
        proof (cases "curSection s = Some ''^ROW_DATA'' \<and> row0 = ''!Name''")
          case True
          then show ?thesis
            using assms Cons notitle nocheck nohdr name [of rest]
            by (simp add: process_row_def)
        next
          case False
          then have "s' = s"
            using assms Cons notitle nocheck nohdr
            by (auto simp: process_row_def split: if_splits)
          then show ?thesis
            using other [of row0 rest] Cons notitle nocheck nohdr False by simp
        qed
      qed
    qed
  qed
qed

lemma name_row_cases:
  assumes "name_row flds s = Inr s'"
  obtains i j where "index_of ''SampleType'' flds = Some i" "index_of ''RowCheck'' flds = Some j"
    "s' = s\<lparr> sample_type_field_i := Some i, row_check_field_i := Some j,
              av_SampleAnnotNames := Some flds \<rparr>"
  using assms by (auto simp: name_row_def split: option.splits)

lemma process_Cons_Inr:
  assumes "process kp ks (row # rows) s = Inr s'"
  obtains s1 where "process_row kp ks row s = Inr s1" "process kp ks rows s1 = Inr s'"
  using assms by (auto split: sum.splits)

lemma process_row_in_table:
  "curSection s = Some ''^TABLE_BEGIN'' \<Longrightarrow> process_row kp ks row s = table_row kp ks row s"
  by (simp add: process_row_def)

subsection \<open>The section a row is read in\<close>

lemma process_row_section:
  assumes "process_row kp ks row s = Inr s'"
  shows "curSection s' = next_section (curSection s) row"
proof (cases "curSection s = Some ''^TABLE_BEGIN''")
  case True
  then have "table_row kp ks row s = Inr s'"
    using assms by (simp add: process_row_def)
  then have "curSection s' = curSection s"
    by (cases rule: table_row_cases) simp_all
  then show ?thesis using True by (simp add: next_section_def)
next
  case False
  from assms False show ?thesis
  proof (cases rule: header_row_cases)
    case (name flds)
    then show ?thesis
      using False by (auto simp: next_section_def sectionTitles_def elim!: name_row_cases)
  qed (use False in \<open>auto simp: next_section_def sectionTitles_def\<close>)
qed

lemma process_section:
  "process kp ks rows s = Inr s' \<Longrightarrow> curSection s' = track_section (curSection s) rows"
proof (induction rows arbitrary: s)
  case Nil
  then show ?case by simp
next
  case (Cons row rows)
  from Cons.prems obtain s1
    where s1: "process_row kp ks row s = Inr s1" and rest: "process kp ks rows s1 = Inr s'"
    by (rule process_Cons_Inr)
  show ?case
    using Cons.IH [OF rest] process_row_section [OF s1] by simp
qed

subsection \<open>Before the table\<close>

lemma process_row_marker:
  assumes "curSection s \<noteq> Some ''^TABLE_BEGIN''" and "is_table_begin row"
  shows "process_row kp ks row s = Inr (s\<lparr> curSection := Some ''^TABLE_BEGIN'' \<rparr>)"
  using assms
  by (auto simp: process_row_def is_table_begin_def sectionTitles_def split: list.splits)

lemma process_row_before_table:
  assumes "process_row kp ks row s = Inr s'"
    and "curSection s \<noteq> Some ''^TABLE_BEGIN''" and "\<not> is_table_begin row"
  shows "curSection s' \<noteq> Some ''^TABLE_BEGIN'' \<and>
         sampleAndIntensityData s' = sampleAndIntensityData s \<and>
         sequenceData s' = sequenceData s \<and>
         sequenceDataIndex s' = sequenceDataIndex s \<and>
         colPassFlag s' = colPassFlag s"
  using assms(1,2)
proof (cases rule: header_row_cases)
  case (marker row0 rest)
  then show ?thesis using assms(3) by (simp add: is_table_begin_def)
next
  case (name flds)
  then show ?thesis using assms(2) by (auto elim!: name_row_cases)
qed (use assms(2) in simp_all)

lemma process_before_table:
  assumes "\<forall>r \<in> set rows. \<not> is_table_begin r"
    and "curSection s \<noteq> Some ''^TABLE_BEGIN''"
    and "process kp ks rows s = Inr s'"
  shows "curSection s' \<noteq> Some ''^TABLE_BEGIN'' \<and>
         sampleAndIntensityData s' = sampleAndIntensityData s \<and>
         sequenceData s' = sequenceData s \<and>
         sequenceDataIndex s' = sequenceDataIndex s \<and>
         colPassFlag s' = colPassFlag s"
  using assms
proof (induction rows arbitrary: s)
  case Nil
  then show ?case by simp
next
  case (Cons row rows)
  from Cons.prems(3) obtain s1
    where s1: "process_row kp ks row s = Inr s1" and rest: "process kp ks rows s1 = Inr s'"
    by (rule process_Cons_Inr)
  have step: "curSection s1 \<noteq> Some ''^TABLE_BEGIN'' \<and>
         sampleAndIntensityData s1 = sampleAndIntensityData s \<and>
         sequenceData s1 = sequenceData s \<and>
         sequenceDataIndex s1 = sequenceDataIndex s \<and>
         colPassFlag s1 = colPassFlag s"
    using process_row_before_table [OF s1 Cons.prems(2)] Cons.prems(1) by simp
  have "curSection s' \<noteq> Some ''^TABLE_BEGIN'' \<and>
         sampleAndIntensityData s' = sampleAndIntensityData s1 \<and>
         sequenceData s' = sequenceData s1 \<and>
         sequenceDataIndex s' = sequenceDataIndex s1 \<and>
         colPassFlag s' = colPassFlag s1"
    using Cons.IH [OF _ _ rest] Cons.prems(1) step by simp
  then show ?case using step by simp
qed

subsection \<open>The offsets of the two filter fields\<close>

lemma offsets_ok_init: "offsets_ok init_state"
  by (simp add: offsets_ok_def init_state_def)

lemma index_of_Some_mem: "index_of x xs = Some i \<Longrightarrow> x \<in> set xs"
  using index_of_None [of x xs] by auto

lemma name_row_offsets_ok:
  assumes "name_row flds s = Inr s'"
  shows "offsets_ok s'"
  using assms
  by (auto simp: offsets_ok_def elim!: name_row_cases dest: index_of_Some_mem)

lemma process_row_offsets_ok:
  assumes "offsets_ok s" and "process_row kp ks row s = Inr s'"
  shows "offsets_ok s'"
proof (cases "curSection s = Some ''^TABLE_BEGIN''")
  case True
  then have "table_row kp ks row s = Inr s'"
    using assms(2) by (simp add: process_row_def)
  then show ?thesis
    using assms(1) by (cases rule: table_row_cases) (auto simp: offsets_ok_def split: option.splits)
next
  case False
  from assms(2) False show ?thesis
  proof (cases rule: header_row_cases)
    case (name flds)
    then show ?thesis by (simp add: name_row_offsets_ok)
  qed (use assms(1) in \<open>auto simp: offsets_ok_def split: option.splits\<close>)
qed

lemma process_offsets_ok:
  "offsets_ok s \<Longrightarrow> process kp ks rows s = Inr s' \<Longrightarrow> offsets_ok s'"
proof (induction rows arbitrary: s)
  case Nil
  then show ?case by simp
next
  case (Cons row rows)
  from Cons.prems(2) obtain s1
    where s1: "process_row kp ks row s = Inr s1" and rest: "process kp ks rows s1 = Inr s'"
    by (rule process_Cons_Inr)
  show ?case
    using Cons.IH [OF process_row_offsets_ok [OF Cons.prems(1) s1] rest] .
qed

subsection \<open>The rows of the table that are kept\<close>

lemma index_of_less: "index_of x xs = Some i \<Longrightarrow> i < length xs"
  by (simp add: index_of_Some)

lemma field_check_field_of:
  assumes "x \<in> set names" and "length names < length row"
  shows "field_check on (index_of x names) wanted (take (length names) row) =
           (if on \<and> field_of names x row \<noteq> Some wanted then Skip else Keep)"
proof -
  obtain i where i: "index_of x names = Some i"
    using assms(1) index_of_None [of x names] by (cases "index_of x names") auto
  then have "i < length names" by (rule index_of_less)
  then show ?thesis
    using i assms(2) by (simp add: field_check_def field_of_def)
qed

lemma table_row_count:
  assumes "table_row kp ks row s = Inr s'" and "offsets_ok s"
    and "av_SampleAnnotNames s = Some names"
  shows "length (sampleAndIntensityData s') =
           length (sampleAndIntensityData s) + length (kept_rows kp ks names [row])"
proof -
  have st: "sample_type_field_i s = index_of ''SampleType'' names" "''SampleType'' \<in> set names"
    and rc: "row_check_field_i s = index_of ''RowCheck'' names" "''RowCheck'' \<in> set names"
    using assms(2,3) by (simp_all add: offsets_ok_def)
  from assms(1) show ?thesis
  proof (cases rule: table_row_cases)
    case (column names')
    then show ?thesis
      using assms(3)
      by (simp add: kept_rows_def sample_rows_def is_sample_row_def
                    without_repeats_def configured_filters_def)
  next
    case (skipped names')
    then have n: "names' = names" using assms(3) by simp
    show ?thesis
      using skipped n st rc
      by (auto simp: kept_rows_def sample_rows_def is_sample_row_def without_repeats_def
                     configured_filters_def repeats_names_def survives_def field_check_field_of
               split: if_splits)
  next
    case (kept names')
    then have n: "names' = names" using assms(3) by simp
    show ?thesis
      using kept n st rc
      by (auto simp: kept_rows_def sample_rows_def is_sample_row_def without_repeats_def
                     configured_filters_def repeats_names_def survives_def field_check_field_of
               split: if_splits)
  qed
qed

lemma kept_rows_Cons:
  "kept_rows kp ks names (row # tbl) = kept_rows kp ks names [row] @ kept_rows kp ks names tbl"
  by (simp add: kept_rows_def sample_rows_def without_repeats_def configured_filters_def)

lemma process_table_count:
  assumes "curSection s = Some ''^TABLE_BEGIN''" and "offsets_ok s"
    and "av_SampleAnnotNames s = Some names"
    and "process kp ks tbl s = Inr s'"
  shows "length (sampleAndIntensityData s') =
           length (sampleAndIntensityData s) + length (kept_rows kp ks names tbl)"
  using assms
proof (induction tbl arbitrary: s)
  case Nil
  then show ?case by (simp add: kept_rows_def sample_rows_def without_repeats_def configured_filters_def)
next
  case (Cons row tbl)
  from Cons.prems(4) obtain s1
    where s1: "process_row kp ks row s = Inr s1" and rest: "process kp ks tbl s1 = Inr s'"
    by (rule process_Cons_Inr)
  have t1: "table_row kp ks row s = Inr s1"
    using s1 Cons.prems(1) by (simp add: process_row_in_table)
  have keep: "curSection s1 = Some ''^TABLE_BEGIN''" "av_SampleAnnotNames s1 = Some names"
    using t1 Cons.prems(1,3) by (cases rule: table_row_cases; simp)+
  have ok1: "offsets_ok s1"
    using process_row_offsets_ok [OF Cons.prems(2) s1] .
  have "length (sampleAndIntensityData s') =
          length (sampleAndIntensityData s1) + length (kept_rows kp ks names tbl)"
    using Cons.IH [OF keep(1) ok1 keep(2) rest] .
  then show ?case
    using table_row_count [OF t1 Cons.prems(2,3)] kept_rows_Cons [of kp ks names row tbl]
    by simp
qed

subsection \<open>The input split at the marker\<close>

lemma rows_split:
  "rows = header_part rows @ dropWhile (\<lambda>r. \<not> is_table_begin r) rows"
  by (simp add: header_part_def)

lemma header_part_no_marker: "\<forall>r \<in> set (header_part rows). \<not> is_table_begin r"
  by (auto simp: header_part_def dest: set_takeWhileD)

lemma process_init_split:
  assumes "process kp ks rows init_state = Inr s"
  obtains (no_table) "header_part rows = rows" "curSection s \<noteq> Some ''^TABLE_BEGIN''"
      "sampleAndIntensityData s = []" "sequenceData s = []" "sequenceDataIndex s = []"
      "colPassFlag s = None"
  | (table) m s0 where "rows = header_part rows @ m # table_part rows" "is_table_begin m"
      "process kp ks (header_part rows @ [m]) init_state = Inr s0"
      "curSection s0 = Some ''^TABLE_BEGIN''"
      "sampleAndIntensityData s0 = []" "sequenceData s0 = []" "sequenceDataIndex s0 = []"
      "colPassFlag s0 = None"
      "process kp ks (table_part rows) s0 = Inr s"
proof (cases "dropWhile (\<lambda>r. \<not> is_table_begin r) rows")
  case Nil
  then have h: "header_part rows = rows"
    by (simp add: header_part_def takeWhile_eq_all_conv)
  have "\<forall>r \<in> set rows. \<not> is_table_begin r"
    using header_part_no_marker [of rows] h by simp
  then have "curSection s \<noteq> Some ''^TABLE_BEGIN'' \<and>
         sampleAndIntensityData s = sampleAndIntensityData init_state \<and>
         sequenceData s = sequenceData init_state \<and>
         sequenceDataIndex s = sequenceDataIndex init_state \<and>
         colPassFlag s = colPassFlag init_state"
    using process_before_table [OF _ _ assms] by (simp add: init_state_def)
  then have "curSection s \<noteq> Some ''^TABLE_BEGIN''"
      "sampleAndIntensityData s = []" "sequenceData s = []" "sequenceDataIndex s = []"
      "colPassFlag s = None"
    by (simp_all add: init_state_def)
  then show ?thesis using no_table [OF h] by blast
next
  case (Cons m rest)
  then have m: "is_table_begin m"
    using hd_dropWhile [of "\<lambda>r. \<not> is_table_begin r" rows] by simp
  have tp: "table_part rows = rest"
    using Cons by (simp add: table_part_def)
  have split: "rows = header_part rows @ m # table_part rows"
    using rows_split [of rows] Cons tp by simp
  from assms split obtain sh
    where sh: "process kp ks (header_part rows) init_state = Inr sh"
      and rest: "process kp ks (m # table_part rows) sh = Inr s"
    using process_append [of kp ks "header_part rows" "m # table_part rows" init_state]
    by (cases "process kp ks (header_part rows) init_state") simp_all
  have before: "curSection sh \<noteq> Some ''^TABLE_BEGIN'' \<and>
         sampleAndIntensityData sh = sampleAndIntensityData init_state \<and>
         sequenceData sh = sequenceData init_state \<and>
         sequenceDataIndex sh = sequenceDataIndex init_state \<and>
         colPassFlag sh = colPassFlag init_state"
    using process_before_table [OF header_part_no_marker _ sh] by (simp add: init_state_def)
  define s0 where "s0 = sh\<lparr> curSection := Some ''^TABLE_BEGIN'' \<rparr>"
  have step: "process_row kp ks m sh = Inr s0"
    using process_row_marker [of sh m kp ks] before m by (simp add: s0_def)
  have p0: "process kp ks (header_part rows @ [m]) init_state = Inr s0"
    using sh step by (simp add: process_append)
  have pt: "process kp ks (table_part rows) s0 = Inr s"
    using rest step by simp
  have "curSection s0 = Some ''^TABLE_BEGIN''"
      "sampleAndIntensityData s0 = []" "sequenceData s0 = []" "sequenceDataIndex s0 = []"
      "colPassFlag s0 = None"
    using before by (simp_all add: s0_def init_state_def)
  then show ?thesis
    using table [OF split m p0 _ _ _ _ _ pt] by blast
qed

subsection \<open>A result, taken apart\<close>

lemma assemble_cases:
  assumes "assemble kp s = Inr (names, seqIds, frame, vals0)"
  obtains "av_SampleAnnotNames s = Some names"
    "loc_SeqId (sequenceDataIndex s)
       (map (pad (max_width (map (apply_mask kp (colPassFlag s)) (sequenceData s))))
            (map (apply_mask kp (colPassFlag s)) (sequenceData s)))
       (max_width (map (apply_mask kp (colPassFlag s)) (sequenceData s))) = Inr seqIds"
    "length seqIds = max_width (map (apply_mask kp (colPassFlag s)) (sequenceData s))"
    "sampleAndIntensityData s = [] \<or>
     max_width (sampleAndIntensityData s) = length names + length seqIds"
    "frame = \<lparr> sf_index = sequenceDataIndex s, sf_columns = seqIds,
               sf_values = map (pad (max_width (map (apply_mask kp (colPassFlag s)) (sequenceData s))))
                             (map (apply_mask kp (colPassFlag s)) (sequenceData s)) \<rparr>"
    "vals0 = map (pad (length names + length seqIds)) (sampleAndIntensityData s)"
  using assms
  by (auto simp: assemble_def Let_def split: option.splits sum.splits if_splits)

lemma finalize_cases:
  assumes "finalize to_float kp s = Inr res"
  obtains names seqIds frame vals0 vals where
    "assemble kp s = Inr (names, seqIds, frame, vals0)"
    "astype to_float seqIds (names @ seqIds) vals0 = Inr vals"
    "res = \<lparr> Checksum = av_Checksum s, Metadata = av_Metadata s,
             SampleAnnotNames = names, SequenceAnnotNames = sequenceDataIndex s,
             SequenceData = frame,
             SampleAndIntensityData = \<lparr> df_columns = names @ seqIds, df_values = vals \<rparr> \<rparr>"
  using assms
  by (auto simp: finalize_def split: sum.splits prod.splits)

lemma readAdat_cases:
  assumes "readAdat to_float kp ks rows = Inr res"
  obtains s where "process kp ks rows init_state = Inr s" "finalize to_float kp s = Inr res"
  using assms by (auto simp: readAdat_def split: sum.splits)

lemma astype_Inr:
  assumes "astype to_float seqIds cols vals0 = Inr vals"
  shows "vals = map (\<lambda>r. map (astype_cell to_float seqIds) (zip cols r)) vals0"
    and "\<forall>c \<in> set (converted_strings seqIds cols vals0). to_float c \<noteq> None"
  using assms
  by (auto simp: astype_def find_None_iff split: option.splits)

lemma rows_labelled_mem:
  "r \<in> set (rows_labelled l index rows) \<Longrightarrow> l \<in> set index \<and> r \<in> set rows"
  by (auto simp: rows_labelled_def dest: set_zip_leftD set_zip_rightD)

lemma loc_SeqId_labelled:
  assumes "loc_SeqId index vals w = Inr ids"
  shows "''SeqId'' \<in> set index"
proof (cases "rows_labelled ''SeqId'' index vals")
  case Nil
  then show ?thesis using assms by (simp add: loc_SeqId_def)
next
  case (Cons r rs)
  then have "r \<in> set (rows_labelled ''SeqId'' index vals)" by simp
  then show ?thesis using rows_labelled_mem by fast
qed

lemma process_table_keeps:
  assumes "curSection s = Some ''^TABLE_BEGIN''" and "process kp ks tbl s = Inr s'"
  shows "curSection s' = Some ''^TABLE_BEGIN'' \<and>
         av_SampleAnnotNames s' = av_SampleAnnotNames s \<and>
         sample_type_field_i s' = sample_type_field_i s \<and>
         row_check_field_i s' = row_check_field_i s \<and>
         av_Checksum s' = av_Checksum s \<and> av_Metadata s' = av_Metadata s"
  using assms
proof (induction tbl arbitrary: s)
  case Nil
  then show ?case by simp
next
  case (Cons row tbl)
  from Cons.prems(2) obtain s1
    where s1: "process_row kp ks row s = Inr s1" and rest: "process kp ks tbl s1 = Inr s'"
    by (rule process_Cons_Inr)
  have t1: "table_row kp ks row s = Inr s1"
    using s1 Cons.prems(1) by (simp add: process_row_in_table)
  have step: "curSection s1 = Some ''^TABLE_BEGIN'' \<and>
         av_SampleAnnotNames s1 = av_SampleAnnotNames s \<and>
         sample_type_field_i s1 = sample_type_field_i s \<and>
         row_check_field_i s1 = row_check_field_i s \<and>
         av_Checksum s1 = av_Checksum s \<and> av_Metadata s1 = av_Metadata s"
    using t1 Cons.prems(1) by (cases rule: table_row_cases) simp_all
  then show ?case
    using Cons.IH [OF _ rest] by simp
qed

lemma kept_rows_le: "length (kept_rows kp ks names tbl) \<le> length (sample_rows names tbl)"
proof -
  have "length (kept_rows kp ks names tbl) \<le> length (without_repeats names (sample_rows names tbl))"
    by (simp add: kept_rows_def configured_filters_def)
  also have "\<dots> \<le> length (sample_rows names tbl)"
    by (simp add: without_repeats_def)
  finally show ?thesis .
qed

text \<open>
  How a successful call went: the input has a \<^verbatim>\<open>^TABLE_BEGIN\<close> marker, the rows up to it
  leave the three accumulators empty, and the rows after it are read with the field
  names of the result.
\<close>

lemma readAdat_run:
  assumes "readAdat to_float kp ks rows = Inr res"
  obtains s0 s seqIds vals0 vals m where
    "rows = header_part rows @ m # table_part rows" "is_table_begin m"
    "process kp ks (header_part rows @ [m]) init_state = Inr s0"
    "curSection s0 = Some ''^TABLE_BEGIN''"
    "av_SampleAnnotNames s0 = Some (SampleAnnotNames res)" "offsets_ok s0"
    "sampleAndIntensityData s0 = []" "sequenceData s0 = []" "sequenceDataIndex s0 = []"
    "colPassFlag s0 = None"
    "process kp ks (table_part rows) s0 = Inr s"
    "process kp ks rows init_state = Inr s"
    "assemble kp s = Inr (SampleAnnotNames res, seqIds, SequenceData res, vals0)"
    "astype to_float seqIds (SampleAnnotNames res @ seqIds) vals0 = Inr vals"
    "res = \<lparr> Checksum = av_Checksum s, Metadata = av_Metadata s,
             SampleAnnotNames = SampleAnnotNames res, SequenceAnnotNames = sequenceDataIndex s,
             SequenceData = SequenceData res,
             SampleAndIntensityData =
               \<lparr> df_columns = SampleAnnotNames res @ seqIds, df_values = vals \<rparr> \<rparr>"
proof -
  from assms obtain s
    where run: "process kp ks rows init_state = Inr s" and fin: "finalize to_float kp s = Inr res"
    by (rule readAdat_cases)
  from fin obtain names seqIds frame vals0 vals
    where asm: "assemble kp s = Inr (names, seqIds, frame, vals0)"
      and ast: "astype to_float seqIds (names @ seqIds) vals0 = Inr vals"
      and res: "res = \<lparr> Checksum = av_Checksum s, Metadata = av_Metadata s,
             SampleAnnotNames = names, SequenceAnnotNames = sequenceDataIndex s,
             SequenceData = frame,
             SampleAndIntensityData = \<lparr> df_columns = names @ seqIds, df_values = vals \<rparr> \<rparr>"
    by (rule finalize_cases)
  have names: "SampleAnnotNames res = names" and frame: "SequenceData res = frame"
    using res by simp_all
  from asm have avn: "av_SampleAnnotNames s = Some names"
    and seqid: "''SeqId'' \<in> set (sequenceDataIndex s)"
    by (auto elim!: assemble_cases dest: loc_SeqId_labelled)
  from run show ?thesis
  proof (cases rule: process_init_split)
    case no_table
    then show ?thesis using seqid by simp
  next
    case (table m s0)
    have keeps: "av_SampleAnnotNames s = av_SampleAnnotNames s0"
      using process_table_keeps [OF table(4) table(9)] by simp
    have ok: "offsets_ok s0"
      using process_offsets_ok [OF offsets_ok_init table(3)] .
    show ?thesis
      using that [OF table(1-4) _ ok table(5-9) run _ _ _] keeps avn asm ast res names frame
      by simp
  qed
qed

subsection \<open>The column-annotation rows of the table\<close>

lemma process_table_columns:
  assumes "curSection s = Some ''^TABLE_BEGIN''" and "av_SampleAnnotNames s = Some names"
    and "process kp ks tbl s = Inr s'"
  shows "sequenceDataIndex s' = sequenceDataIndex s @ column_labels names tbl \<and>
         sequenceData s' = sequenceData s @ column_values names tbl"
  using assms
proof (induction tbl arbitrary: s)
  case Nil
  then show ?case by (simp add: column_labels_def column_values_def column_rows_def)
next
  case (Cons row tbl)
  from Cons.prems(3) obtain s1
    where s1: "process_row kp ks row s = Inr s1" and rest: "process kp ks tbl s1 = Inr s'"
    by (rule process_Cons_Inr)
  have t1: "table_row kp ks row s = Inr s1"
    using s1 Cons.prems(1) by (simp add: process_row_in_table)
  have keep: "curSection s1 = Some ''^TABLE_BEGIN''" "av_SampleAnnotNames s1 = Some names"
    using t1 Cons.prems(1,2) by (cases rule: table_row_cases; simp)+
  have step: "sequenceDataIndex s1 = sequenceDataIndex s @ column_labels names [row] \<and>
              sequenceData s1 = sequenceData s @ column_values names [row]"
    using t1 Cons.prems(2)
    by (cases rule: table_row_cases)
       (simp_all add: column_labels_def column_values_def column_rows_def is_column_row_def)
  have split: "column_labels names (row # tbl) = column_labels names [row] @ column_labels names tbl"
      "column_values names (row # tbl) = column_values names [row] @ column_values names tbl"
    by (simp_all add: column_labels_def column_values_def column_rows_def)
  show ?case
    using Cons.IH [OF keep rest] step split by simp
qed

lemma labels_of_the_table:
  assumes "process kp ks rows init_state = Inr s" and "av_SampleAnnotNames s = Some names"
  shows "sequenceDataIndex s = column_labels names (table_part rows) \<and>
         sequenceData s = column_values names (table_part rows)"
  using assms(1)
proof (cases rule: process_init_split)
  case no_table
  then have "dropWhile (\<lambda>r. \<not> is_table_begin r) rows = []"
    using header_part_no_marker [of rows] by (simp add: dropWhile_eq_Nil_conv)
  then have "table_part rows = []"
    unfolding table_part_def by (simp only: drop_Nil)
  then show ?thesis
    using no_table by (simp add: column_labels_def column_values_def column_rows_def)
next
  case (table m s0)
  have "av_SampleAnnotNames s0 = Some names"
    using process_table_keeps [OF table(4) table(9)] assms(2) by simp
  from process_table_columns [OF table(4) this table(9)] table(6,7)
  show ?thesis by simp
qed

subsection \<open>Frames\<close>

lemma max_width_ge: "r \<in> set rows \<Longrightarrow> length r \<le> max_width rows"
  by (induction rows) (auto simp: max_width_def)


lemma length_pad: "length (pad w r) = max w (length r)"
  by (simp add: pad_def)

lemma padded_width:
  assumes "p \<in> set (map (pad (max_width rows)) rows)"
  shows "length p = max_width rows"
proof -
  from assms obtain r where "r \<in> set rows" "p = pad (max_width rows) r" by auto
  then show ?thesis using max_width_ge [of r rows] by (simp add: length_pad)
qed

lemma rows_labelled_map:
  "rows_labelled l index (map f rows) = map f (rows_labelled l index rows)"
proof -
  have "zip index (map f rows) = map (\<lambda>p. (fst p, f (snd p))) (zip index rows)"
    by (simp add: zip_map2 case_prod_beta)
  then show ?thesis
    by (simp add: rows_labelled_def filter_map comp_def)
qed

lemma prefix_SeqId_Inr:
  "prefix_SeqId r = Inr ids \<Longrightarrow> map Some ids = map (map_option ((@) ''SeqId.'')) r"
  by (induction r arbitrary: ids rule: prefix_SeqId.induct) (auto split: sum.splits)

lemma prefix_SeqId_complete: "prefix_SeqId r = Inr ids \<Longrightarrow> None \<notin> set r"
  by (induction r arbitrary: ids rule: prefix_SeqId.induct) (auto split: sum.splits)

lemma prefix_SeqId_length: "prefix_SeqId r = Inr ids \<Longrightarrow> length ids = length r"
  using prefix_SeqId_Inr [of r ids] by (metis length_map)

lemma loc_SeqId_cases:
  assumes "loc_SeqId index vals w = Inr ids"
  obtains (one) r where "rows_labelled ''SeqId'' index vals = [r]" "prefix_SeqId r = Inr ids"
  | (several) r r' rs where "rows_labelled ''SeqId'' index vals = r # r' # rs" "w = 0" "ids = []"
proof (cases "rows_labelled ''SeqId'' index vals")
  case Nil
  then show ?thesis using assms by (simp add: loc_SeqId_def)
next
  case (Cons r rs)
  show ?thesis
  proof (cases rs)
    case Nil
    then show ?thesis using assms Cons one by (simp add: loc_SeqId_def)
  next
    case (Cons r' rs')
    then show ?thesis
      using assms \<open>rows_labelled ''SeqId'' index vals = r # rs\<close> several
      by (simp add: loc_SeqId_def split: if_splits)
  qed
qed

lemma loc_SeqId_first:
  assumes "loc_SeqId index vals w = Inr ids" and "\<forall>p \<in> set vals. length p = w"
  shows "\<exists>r. first_labelled ''SeqId'' index vals = Some r \<and>
             map Some ids = map (map_option ((@) ''SeqId.'')) r"
  using assms(1)
proof (cases rule: loc_SeqId_cases)
  case (one r)
  then show ?thesis
    using prefix_SeqId_Inr [of r ids] by (simp add: first_labelled_def)
next
  case (several r r' rs)
  then have "r \<in> set (rows_labelled ''SeqId'' index vals)" by simp
  then have "r \<in> set vals" using rows_labelled_mem by fast
  then have "r = []" using assms(2) several(2) by simp
  then show ?thesis using several by (simp add: first_labelled_def)
qed

lemma first_labelled_map:
  "first_labelled l index (map f rows) = map_option f (first_labelled l index rows)"
  by (simp add: first_labelled_def rows_labelled_map split: list.splits)

lemma unpadded:
  assumes "map Some ids = map (map_option f) (pad w xs)"
  shows "ids = map f xs"
proof -
  have "None \<notin> set (map Some ids)" by auto
  then have "None \<notin> set (map (map_option f) (pad w xs))" using assms by simp
  then have "replicate (w - length xs) (None :: 'b option) = []"
    by (auto simp: pad_def)
  then have "map Some ids = map Some (map f xs)"
    using assms by (simp add: pad_def)
  then show ?thesis
    by (rule map_injective) (simp add: inj_on_def)
qed

subsection \<open>The conversion of the readout columns\<close>









subsection \<open>The mask\<close>

lemma rows_labelled_snoc:
  assumes "length index = length rows"
  shows "rows_labelled l (index @ [l']) (rows @ [r]) =
           rows_labelled l index rows @ (if l' = l then [r] else [])"
  using assms by (simp add: rows_labelled_def)

lemma last_labelled_snoc:
  assumes "length index = length rows"
  shows "last_labelled l (index @ [l']) (rows @ [r]) =
           (if l' = l then Some r else last_labelled l index rows)"
  using assms by (simp add: last_labelled_def rows_labelled_snoc)

lemma last_labelled_mem:
  assumes "last_labelled l index rows = Some r"
  shows "l \<in> set index \<and> r \<in> set rows"
proof -
  from assms have "r \<in> set (rev (rows_labelled l index rows))"
    by (auto simp: last_labelled_def split: list.splits)
  then show ?thesis using rows_labelled_mem [of r l index rows] by simp
qed

lemma mask_ok_init: "mask_ok kp init_state"
  by (simp add: mask_ok_def init_state_def last_labelled_def rows_labelled_def)

lemma process_row_mask_ok:
  assumes "mask_ok kp s" and "process_row kp ks row s = Inr s'"
  shows "mask_ok kp s'"
proof (cases "curSection s = Some ''^TABLE_BEGIN''")
  case True
  then have "table_row kp ks row s = Inr s'"
    using assms(2) by (simp add: process_row_in_table)
  then show ?thesis
  proof (cases rule: table_row_cases)
    case (column names)
    have len: "length (sequenceDataIndex s) = length (sequenceData s)"
      using assms(1) by (simp add: mask_ok_def)
    show ?thesis
      using assms(1) column(4) by (simp add: mask_ok_def last_labelled_snoc [OF len])
  next
    case (skipped names)
    then show ?thesis using assms(1) by simp
  next
    case (kept names)
    then show ?thesis using assms(1) by (simp add: mask_ok_def)
  qed
next
  case False
  from assms(2) False show ?thesis
    by (cases rule: header_row_cases)
       (use assms(1) in \<open>auto simp: mask_ok_def elim!: name_row_cases\<close>)
qed

lemma process_mask_ok:
  "mask_ok kp s \<Longrightarrow> process kp ks rows s = Inr s' \<Longrightarrow> mask_ok kp s'"
proof (induction rows arbitrary: s)
  case Nil
  then show ?case by simp
next
  case (Cons row rows)
  from Cons.prems(2) obtain s1
    where s1: "process_row kp ks row s = Inr s1" and rest: "process kp ks rows s1 = Inr s'"
    by (rule process_Cons_Inr)
  show ?case
    using Cons.IH [OF process_row_mask_ok [OF Cons.prems(1) s1] rest] .
qed





lemma apply_mask_on:
  assumes "kp" and "m \<noteq> []"
  shows "apply_mask kp (Some m) xs = mask_filter xs m"
  using assms by (simp add: apply_mask_def)


subsection \<open>The protein labels of a result\<close>

lemma readAdat_columns:
  assumes "readAdat to_float kp ks rows = Inr res"
  obtains s seqIds raw where
    "process kp ks rows init_state = Inr s"
    "av_SampleAnnotNames s = Some (SampleAnnotNames res)"
    "sequenceDataIndex s = column_labels (SampleAnnotNames res) (table_part rows)"
    "sequenceData s = column_values (SampleAnnotNames res) (table_part rows)"
    "df_columns (SampleAndIntensityData res) = SampleAnnotNames res @ seqIds"
    "SequenceData res =
       \<lparr> sf_index = sequenceDataIndex s, sf_columns = seqIds,
         sf_values = map (pad (max_width (map (apply_mask kp (colPassFlag s)) (sequenceData s))))
                       (map (apply_mask kp (colPassFlag s)) (sequenceData s)) \<rparr>"
    "length seqIds = max_width (map (apply_mask kp (colPassFlag s)) (sequenceData s))"
    "first_labelled ''SeqId'' (sequenceDataIndex s) (sequenceData s) = Some raw"
    "seqIds = map ((@) ''SeqId.'') (apply_mask kp (colPassFlag s) raw)"
proof -
  from assms obtain s seqIds vals0 vals
    where run: "process kp ks rows init_state = Inr s"
      and asm: "assemble kp s = Inr (SampleAnnotNames res, seqIds, SequenceData res, vals0)"
      and res: "res = \<lparr> Checksum = av_Checksum s, Metadata = av_Metadata s,
             SampleAnnotNames = SampleAnnotNames res, SequenceAnnotNames = sequenceDataIndex s,
             SequenceData = SequenceData res,
             SampleAndIntensityData =
               \<lparr> df_columns = SampleAnnotNames res @ seqIds, df_values = vals \<rparr> \<rparr>"
    by (rule readAdat_run)
  define seqRows where "seqRows = map (apply_mask kp (colPassFlag s)) (sequenceData s)"
  from asm have loc: "loc_SeqId (sequenceDataIndex s) (map (pad (max_width seqRows)) seqRows)
                        (max_width seqRows) = Inr seqIds"
    and frame: "SequenceData res = \<lparr> sf_index = sequenceDataIndex s, sf_columns = seqIds,
               sf_values = map (pad (max_width seqRows)) seqRows \<rparr>"
    and len: "length seqIds = max_width seqRows"
    and names: "av_SampleAnnotNames s = Some (SampleAnnotNames res)"
    unfolding seqRows_def by (auto elim!: assemble_cases)
  have cols: "df_columns (SampleAndIntensityData res) = SampleAnnotNames res @ seqIds"
    by (subst res) simp
  have "\<forall>p \<in> set (map (pad (max_width seqRows)) seqRows). length p = max_width seqRows"
    using padded_width by blast
  from loc_SeqId_first [OF loc this] obtain r
    where r: "first_labelled ''SeqId'' (sequenceDataIndex s) (map (pad (max_width seqRows)) seqRows)
                = Some r"
      and ids: "map Some seqIds = map (map_option ((@) ''SeqId.'')) r"
    by blast
  have input: "sequenceDataIndex s = column_labels (SampleAnnotNames res) (table_part rows)"
      "sequenceData s = column_values (SampleAnnotNames res) (table_part rows)"
    using labels_of_the_table [OF run names] by simp_all
  from r obtain raw
    where raw: "first_labelled ''SeqId'' (sequenceDataIndex s) (sequenceData s) = Some raw"
      and r_raw: "r = pad (max_width seqRows) (apply_mask kp (colPassFlag s) raw)"
    unfolding seqRows_def by (auto simp: first_labelled_map)
  have "seqIds = map ((@) ''SeqId.'') (apply_mask kp (colPassFlag s) raw)"
    using ids r_raw unpadded by fast
  then show ?thesis
    using that [OF run names input cols _ _ raw] frame len unfolding seqRows_def by simp
qed

subsection \<open>A sample row that repeats the field names\<close>

lemma stray_row_skipped:
  assumes "curSection s = Some ''^TABLE_BEGIN''"
    and "av_SampleAnnotNames s = Some names"
    and "length names < length row"
    and "row ! length names = []"
    and "take (length names) row = names"
  shows "process_row kp ks row s = Inr s"
  using assms by (simp add: process_row_def table_row_def)

text \<open>
  Claim C9. In the \<^verbatim>\<open>^TABLE_BEGIN\<close> section, a row whose column-annotation name slot
  is empty and whose sample-annotation values are, element by element, the discovered
  field names is dropped whatever the two flags are: the loop leaves its state as it
  was, and the result of the whole parse is the result for the input without that row.
\<close>

theorem stray_header_row_excluded:
  assumes "process kp ks pre init_state = Inr s"
    and "curSection s = Some ''^TABLE_BEGIN''"
    and "av_SampleAnnotNames s = Some names"
    and "length names < length row"
    and "row ! length names = []"
    and "take (length names) row = names"
  shows "process kp ks (pre @ [row]) init_state = Inr s \<and>
         readAdat to_float kp ks (pre @ row # post) = readAdat to_float kp ks (pre @ post)"
proof -
  have skip: "process_row kp ks row s = Inr s"
    using assms(2-6) by (rule stray_row_skipped)
  have "process kp ks (pre @ [row]) init_state = Inr s"
    using assms(1) skip by (simp add: process_append)
  moreover have "readAdat to_float kp ks (pre @ row # post) = readAdat to_float kp ks (pre @ post)"
    using assms(1) skip by (simp add: readAdat_def process_append)
  ultimately show ?thesis by simp
qed

theorem stray_header_row_excluded_witness:
  "process False False ex_stray_pre init_state = Inr ex_stray_state \<and>
   curSection ex_stray_state = Some ''^TABLE_BEGIN'' \<and>
   av_SampleAnnotNames ex_stray_state = Some [''SampleType'', ''RowCheck''] \<and>
   process False False (ex_stray_pre @ [[''SampleType'', ''RowCheck'', '''', ''1.5'']]) init_state
     = Inr ex_stray_state \<and>
   readAdat decimal_literal False False
     (ex_stray_pre @ [''SampleType'', ''RowCheck'', '''', ''1.5''] # [[''Calibrator'', ''FAIL'', '''', ''2.5'']])
     = readAdat decimal_literal False False (ex_stray_pre @ [[''Calibrator'', ''FAIL'', '''', ''2.5'']]) \<and>
   readAdat decimal_literal False False (ex_stray_pre @ [[''Calibrator'', ''FAIL'', '''', ''2.5'']])
     = Inr ex_stray_result"
proof -
  have h1: "process False False ex_stray_pre init_state = Inr ex_stray_state"
    by code_simp
  have h2: "curSection ex_stray_state = Some ''^TABLE_BEGIN''"
    by (simp add: ex_stray_state_def)
  have h3: "av_SampleAnnotNames ex_stray_state = Some [''SampleType'', ''RowCheck'']"
    by (simp add: ex_stray_state_def)
  have h4: "length [''SampleType'', ''RowCheck''] < length [''SampleType'', ''RowCheck'', '''', ''1.5'']"
    by simp
  have h5: "[''SampleType'', ''RowCheck'', '''', ''1.5''] ! length [''SampleType'', ''RowCheck''] = []"
    by simp
  have h6: "take (length [''SampleType'', ''RowCheck'']) [''SampleType'', ''RowCheck'', '''', ''1.5'']
              = [''SampleType'', ''RowCheck'']"
    by simp
  have r: "readAdat decimal_literal False False (ex_stray_pre @ [[''Calibrator'', ''FAIL'', '''', ''2.5'']])
             = Inr ex_stray_result"
    by code_simp
  from stray_header_row_excluded [OF h1 h2 h3 h4 h5 h6, of decimal_literal
        "[[''Calibrator'', ''FAIL'', '''', ''2.5'']]"]
  show ?thesis using h1 h2 h3 r by blast
qed

subsection \<open>A field-name row without \<^verbatim>\<open>SampleType\<close> or \<^verbatim>\<open>RowCheck\<close>\<close>

lemma name_row_raises:
  assumes "''SampleType'' \<notin> set flds \<or> ''RowCheck'' \<notin> set flds"
  shows "name_row flds s =
           Inl (ValueError_not_in_list
                  (if ''SampleType'' \<in> set flds then ''RowCheck'' else ''SampleType''))"
proof (cases "''SampleType'' \<in> set flds")
  case True
  then have "''RowCheck'' \<notin> set flds" using assms by simp
  then have "index_of ''RowCheck'' flds = None" by (simp add: index_of_None)
  moreover obtain i where "index_of ''SampleType'' flds = Some i"
    using True index_of_None [of "''SampleType''" flds]
    by (cases "index_of ''SampleType'' flds") auto
  ultimately show ?thesis using True by (simp add: name_row_def)
next
  case False
  then have "index_of ''SampleType'' flds = None" by (simp add: index_of_None)
  then show ?thesis using False by (simp add: name_row_def)
qed

text \<open>
  Claim C1 says that a \<^verbatim>\<open>!Name\<close> row of the \<^verbatim>\<open>^ROW_DATA\<close> section that lacks
  \<^verbatim>\<open>SampleType\<close> or \<^verbatim>\<open>RowCheck\<close> leaves the offset unset and the parse goes on.
  The code does otherwise: \<^verbatim>\<open>row.index\<close> (lines 88 and 89) raises ValueError for the
  first of the two names that is missing, and the whole call ends there, whatever
  follows the row.
\<close>

theorem name_row_missing_field_raises:
  assumes "process kp ks pre init_state = Inr s"
    and "curSection s = Some ''^ROW_DATA''"
    and "''SampleType'' \<notin> set flds \<or> ''RowCheck'' \<notin> set flds"
  shows "readAdat to_float kp ks (pre @ (''!Name'' # flds) # post) =
           Inl (ValueError_not_in_list
                  (if ''SampleType'' \<in> set flds then ''RowCheck'' else ''SampleType''))"
proof -
  have "process_row kp ks (''!Name'' # flds) s = name_row flds s"
    using assms(2) by (simp add: process_row_def sectionTitles_def)
  then show ?thesis
    using assms(1) name_row_raises [OF assms(3), of s]
    by (simp add: readAdat_def process_append)
qed

theorem name_row_missing_field_raises_witness:
  "process True True [[''^ROW_DATA'']] init_state
     = Inr (init_state\<lparr> curSection := Some ''^ROW_DATA'' \<rparr>) \<and>
   ''SampleType'' \<notin> set [''SampleId'', ''RowCheck''] \<and>
   readAdat decimal_literal True True
     ([[''^ROW_DATA'']] @ [''!Name'', ''SampleId'', ''RowCheck''] #
        [[''^TABLE_BEGIN''], ['''', '''', ''SeqId'', ''10000-28''], [''S1'', ''PASS'', '''', ''1.5'']])
     = Inl (ValueError_not_in_list ''SampleType'')"
proof -
  have h1: "process True True [[''^ROW_DATA'']] init_state
              = Inr (init_state\<lparr> curSection := Some ''^ROW_DATA'' \<rparr>)"
    by (simp add: process_row_def init_state_def sectionTitles_def)
  have h2: "curSection (init_state\<lparr> curSection := Some ''^ROW_DATA'' \<rparr>) = Some ''^ROW_DATA''"
    by simp
  have h3: "''SampleType'' \<notin> set [''SampleId'', ''RowCheck'']"
    by simp
  have h3': "''SampleType'' \<notin> set [''SampleId'', ''RowCheck''] \<or>
             ''RowCheck'' \<notin> set [''SampleId'', ''RowCheck'']"
    using h3 by simp
  from name_row_missing_field_raises [OF h1 h2 h3', of decimal_literal
        "[[''^TABLE_BEGIN''], ['''', '''', ''SeqId'', ''10000-28''], [''S1'', ''PASS'', '''', ''1.5'']]"]
  have "readAdat decimal_literal True True
     ([[''^ROW_DATA'']] @ [''!Name'', ''SampleId'', ''RowCheck''] #
        [[''^TABLE_BEGIN''], ['''', '''', ''SeqId'', ''10000-28''], [''S1'', ''PASS'', '''', ''1.5'']])
     = Inl (ValueError_not_in_list ''SampleType'')"
    using h3 by simp
  then show ?thesis using h1 h3 by blast
qed

subsection \<open>The number of rows of the sample table\<close>

text \<open>
  Claim C3, amended. After a successful parse the sample table has as many rows as there
  are sample-annotation rows in the \<^verbatim>\<open>^TABLE_BEGIN\<close> section that do not repeat the
  field names and that survive the configured filters (with \<open>keepOnlySamples\<close> the
  \<^verbatim>\<open>SampleType\<close> is exactly \<^verbatim>\<open>Sample\<close>, with \<open>keepOnlyPasses\<close> the \<^verbatim>\<open>RowCheck\<close> is
  exactly \<^verbatim>\<open>PASS\<close>); in particular never more than there are sample-annotation rows.
  A row that is left out raises nothing.
\<close>

theorem sample_row_count:
  assumes "readAdat to_float kp ks rows = Inr res"
  shows "length (df_values (SampleAndIntensityData res)) =
           length (configured_filters kp ks (SampleAnnotNames res)
                     (without_repeats (SampleAnnotNames res)
                        (sample_rows (SampleAnnotNames res) (table_part rows)))) \<and>
         length (df_values (SampleAndIntensityData res)) \<le>
           length (sample_rows (SampleAnnotNames res) (table_part rows))"
proof -
  from assms obtain s0 s seqIds vals0 vals m
    where s0: "curSection s0 = Some ''^TABLE_BEGIN''"
        "av_SampleAnnotNames s0 = Some (SampleAnnotNames res)" "offsets_ok s0"
        "sampleAndIntensityData s0 = []"
      and tbl: "process kp ks (table_part rows) s0 = Inr s"
      and asm: "assemble kp s = Inr (SampleAnnotNames res, seqIds, SequenceData res, vals0)"
      and ast: "astype to_float seqIds (SampleAnnotNames res @ seqIds) vals0 = Inr vals"
      and res: "res = \<lparr> Checksum = av_Checksum s, Metadata = av_Metadata s,
             SampleAnnotNames = SampleAnnotNames res, SequenceAnnotNames = sequenceDataIndex s,
             SequenceData = SequenceData res,
             SampleAndIntensityData =
               \<lparr> df_columns = SampleAnnotNames res @ seqIds, df_values = vals \<rparr> \<rparr>"
    by (rule readAdat_run)
  have "df_values (SampleAndIntensityData res) = vals"
    by (subst res) simp
  moreover have "length vals = length vals0"
    using astype_Inr(1) [OF ast] by simp
  moreover have "length vals0 = length (sampleAndIntensityData s)"
    using asm by (auto elim!: assemble_cases)
  moreover have "length (sampleAndIntensityData s) =
      length (kept_rows kp ks (SampleAnnotNames res) (table_part rows))"
    using process_table_count [OF s0(1,3,2) tbl] s0(4) by simp
  ultimately have n: "length (df_values (SampleAndIntensityData res)) =
      length (kept_rows kp ks (SampleAnnotNames res) (table_part rows))"
    by simp
  show ?thesis
    using n kept_rows_le [of kp ks "SampleAnnotNames res" "table_part rows"]
    by (simp add: kept_rows_def)
qed

theorem sample_row_count_witness:
  "readAdat decimal_literal True True ex_table = Inr ex_table_result \<and>
   length (df_values (SampleAndIntensityData ex_table_result)) = 2 \<and>
   length (configured_filters True True (SampleAnnotNames ex_table_result)
             (without_repeats (SampleAnnotNames ex_table_result)
                (sample_rows (SampleAnnotNames ex_table_result) (table_part ex_table)))) = 2 \<and>
   length (sample_rows (SampleAnnotNames ex_table_result) (table_part ex_table)) = 5"
proof -
  have h: "readAdat decimal_literal True True ex_table = Inr ex_table_result"
    by code_simp
  have v1: "length (df_values (SampleAndIntensityData ex_table_result)) = 2"
    by (simp add: ex_table_result_def)
  have v2: "length (sample_rows (SampleAnnotNames ex_table_result) (table_part ex_table)) = 5"
    by code_simp
  from sample_row_count [OF h] v1
  have "length (configured_filters True True (SampleAnnotNames ex_table_result)
             (without_repeats (SampleAnnotNames ex_table_result)
                (sample_rows (SampleAnnotNames ex_table_result) (table_part ex_table)))) = 2"
    by simp
  then show ?thesis using h v1 v2 by blast
qed

text \<open>
  Claim C3 as it is written counts every sample-annotation row that survives the two
  configured filters. With both flags off no filter is configured, and a row that
  repeats the field names is still left out: of the two sample-annotation rows of
  \<open>ex_unfiltered\<close> the table has one.
\<close>

theorem sample_row_count_counterexample:
  "readAdat decimal_literal False False ex_unfiltered = Inr ex_stray_result \<and>
   length (df_values (SampleAndIntensityData ex_stray_result)) = 1 \<and>
   length (configured_filters False False (SampleAnnotNames ex_stray_result)
             (sample_rows (SampleAnnotNames ex_stray_result) (table_part ex_unfiltered))) = 2"
proof -
  have "readAdat decimal_literal False False ex_unfiltered = Inr ex_stray_result"
    by code_simp
  moreover have "length (df_values (SampleAndIntensityData ex_stray_result)) = 1"
    by (simp add: ex_stray_result_def)
  moreover have "length (configured_filters False False (SampleAnnotNames ex_stray_result)
             (sample_rows (SampleAnnotNames ex_stray_result) (table_part ex_unfiltered))) = 2"
    by code_simp
  ultimately show ?thesis by blast
qed

subsection \<open>No \<^verbatim>\<open>SeqId\<close> row\<close>

lemma loc_SeqId_missing:
  assumes "''SeqId'' \<notin> set index"
  shows "loc_SeqId index vals w = Inl (KeyError ''SeqId'')"
proof -
  have "rows_labelled ''SeqId'' index vals = []"
  proof (cases "rows_labelled ''SeqId'' index vals")
    case (Cons r rs)
    then have "r \<in> set (rows_labelled ''SeqId'' index vals)" by simp
    then show ?thesis using rows_labelled_mem assms by fast
  qed simp
  then show ?thesis by (simp add: loc_SeqId_def)
qed

text \<open>
  Claim C7. The labels of the column-annotation rows that the loop read are
  \<open>sequenceDataIndex\<close>: the labels of the rows of the \<^verbatim>\<open>^TABLE_BEGIN\<close> section with a
  non-empty name slot. When \<^verbatim>\<open>SeqId\<close> is not among them, the call ends with the
  KeyError of line 102, or with the KeyError of line 101 when no field names were read
  either: no result is returned.
\<close>

theorem no_SeqId_row_fails:
  assumes "process kp ks rows init_state = Inr s"
    and "''SeqId'' \<notin> set (sequenceDataIndex s)"
  shows "readAdat to_float kp ks rows =
           Inl (KeyError (if av_SampleAnnotNames s = None then ''SampleAnnotNames'' else ''SeqId'')) \<and>
         (\<forall>names. av_SampleAnnotNames s = Some names \<longrightarrow>
            sequenceDataIndex s = column_labels names (table_part rows))"
proof -
  have "assemble kp s =
          Inl (KeyError (if av_SampleAnnotNames s = None then ''SampleAnnotNames'' else ''SeqId''))"
    using loc_SeqId_missing [OF assms(2)]
    by (simp add: assemble_def Let_def split: option.splits)
  then have "readAdat to_float kp ks rows =
           Inl (KeyError (if av_SampleAnnotNames s = None then ''SampleAnnotNames'' else ''SeqId''))"
    using assms(1) by (simp add: readAdat_def finalize_def)
  then show ?thesis
    using labels_of_the_table [OF assms(1)] by simp
qed

theorem no_SeqId_row_fails_witness:
  "process True True ex_no_SeqId init_state = Inr ex_no_SeqId_state \<and>
   sequenceDataIndex ex_no_SeqId_state = [''Target''] \<and>
   column_labels [''SampleType'', ''RowCheck''] (table_part ex_no_SeqId) = [''Target''] \<and>
   readAdat decimal_literal True True ex_no_SeqId = Inl (KeyError ''SeqId'')"
proof -
  have h1: "process True True ex_no_SeqId init_state = Inr ex_no_SeqId_state"
    by code_simp
  have v: "sequenceDataIndex ex_no_SeqId_state = [''Target'']"
      "av_SampleAnnotNames ex_no_SeqId_state \<noteq> None"
    by (simp_all add: ex_no_SeqId_state_def)
  have h2: "''SeqId'' \<notin> set (sequenceDataIndex ex_no_SeqId_state)"
    using v by simp
  have l: "column_labels [''SampleType'', ''RowCheck''] (table_part ex_no_SeqId) = [''Target'']"
    by code_simp
  from no_SeqId_row_fails [OF h1 h2, of decimal_literal] v(2)
  have "readAdat decimal_literal True True ex_no_SeqId = Inl (KeyError ''SeqId'')"
    by auto
  then show ?thesis using h1 v(1) l by blast
qed

subsection \<open>A table before any field-name row\<close>

lemma process_row_no_names:
  assumes "process_row kp ks row s = Inr s'" and "av_SampleAnnotNames s = None"
    and "\<not> is_name_row (curSection s) row"
  shows "av_SampleAnnotNames s' = None"
proof (cases "curSection s = Some ''^TABLE_BEGIN''")
  case True
  then show ?thesis
    using assms(1,2) by (simp add: process_row_in_table table_row_def)
next
  case False
  from assms(1) False show ?thesis
    by (cases rule: header_row_cases) (use assms(2,3) in \<open>auto simp: is_name_row_def\<close>)
qed

lemma process_no_names:
  assumes "process kp ks rows s = Inr s'" and "av_SampleAnnotNames s = None"
    and "\<not> saw_name_row (curSection s) rows"
  shows "av_SampleAnnotNames s' = None"
  using assms
proof (induction rows arbitrary: s)
  case Nil
  then show ?case by simp
next
  case (Cons row rows)
  from Cons.prems(1) obtain s1
    where s1: "process_row kp ks row s = Inr s1" and rest: "process kp ks rows s1 = Inr s'"
    by (rule process_Cons_Inr)
  have "av_SampleAnnotNames s1 = None"
    using process_row_no_names [OF s1 Cons.prems(2)] Cons.prems(3) by simp
  moreover have "\<not> saw_name_row (curSection s1) rows"
    using Cons.prems(3) process_row_section [OF s1] by simp
  ultimately show ?case
    using Cons.IH [OF rest] by simp
qed

text \<open>
  Claim C6. Let the rows \<open>pre\<close> end in the \<^verbatim>\<open>^TABLE_BEGIN\<close> section and hold no
  \<^verbatim>\<open>!Name\<close> row of a \<^verbatim>\<open>^ROW_DATA\<close> section. Then every input that goes on with a
  further row fails: with the KeyError of line 54 at that row, unless a row of \<open>pre\<close>
  has raised before, and then with that error. No result is returned.
\<close>

theorem table_without_names_fails:
  assumes "track_section None pre = Some ''^TABLE_BEGIN''"
    and "\<not> saw_name_row None pre"
  shows "readAdat to_float kp ks (pre @ row # post) =
           Inl (case process kp ks pre init_state of
                  Inl e \<Rightarrow> e
                | Inr s \<Rightarrow> KeyError ''SampleAnnotNames'')"
proof (cases "process kp ks pre init_state")
  case (Inl e)
  then show ?thesis by (simp add: readAdat_def process_append)
next
  case (Inr s)
  have sec: "curSection s = Some ''^TABLE_BEGIN''"
    using process_section [OF Inr] assms(1) by (simp add: init_state_def)
  have "av_SampleAnnotNames s = None"
    using process_no_names [OF Inr] assms(2) by (simp add: init_state_def)
  then have "process_row kp ks row s = Inl (KeyError ''SampleAnnotNames'')"
    using sec by (simp add: process_row_in_table table_row_def)
  then show ?thesis
    using Inr by (simp add: readAdat_def process_append)
qed

theorem table_without_names_fails_witness:
  "track_section None ex_no_names = Some ''^TABLE_BEGIN'' \<and>
   \<not> saw_name_row None ex_no_names \<and>
   process True True ex_no_names init_state = Inr ex_no_names_state \<and>
   readAdat decimal_literal True True
     (ex_no_names @ ['''', '''', ''SeqId'', ''10000-28''] # [[''S1'', ''Sample'', '''', ''1.5'']])
     = Inl (KeyError ''SampleAnnotNames'')"
proof -
  have h1: "track_section None ex_no_names = Some ''^TABLE_BEGIN''"
    by code_simp
  have h2: "\<not> saw_name_row None ex_no_names"
    by code_simp
  have p: "process True True ex_no_names init_state = Inr ex_no_names_state"
    by code_simp
  from table_without_names_fails [OF h1 h2, of decimal_literal True True
        "['''', '''', ''SeqId'', ''10000-28'']" "[[''S1'', ''Sample'', '''', ''1.5'']]"] p
  have "readAdat decimal_literal True True
     (ex_no_names @ ['''', '''', ''SeqId'', ''10000-28''] # [[''S1'', ''Sample'', '''', ''1.5'']])
     = Inl (KeyError ''SampleAnnotNames'')"
    by simp
  then show ?thesis using h1 h2 p by blast
qed

subsection \<open>The labels of the protein columns\<close>

text \<open>
  Claim C4. After a successful parse the column labels of the sample table are the
  field names followed by the column labels of the sequence table, in this order, and
  each of these labels is \<^verbatim>\<open>SeqId.\<close> followed by the value at its position in the row
  of the sequence table that is labelled \<^verbatim>\<open>SeqId\<close>. In terms of the input: the labels
  are made of the values of the \<^verbatim>\<open>SeqId\<close> row of the \<^verbatim>\<open>^TABLE_BEGIN\<close> section, as the
  mask of line 96 leaves them.
\<close>

theorem protein_columns_agree:
  assumes "readAdat to_float kp ks rows = Inr res"
  shows "df_columns (SampleAndIntensityData res) =
           SampleAnnotNames res @ sf_columns (SequenceData res) \<and>
         (\<exists>r. first_labelled ''SeqId'' (sf_index (SequenceData res)) (sf_values (SequenceData res))
                = Some r \<and>
              map Some (sf_columns (SequenceData res)) = map (map_option ((@) ''SeqId.'')) r) \<and>
         (\<exists>s raw. process kp ks rows init_state = Inr s \<and>
              first_labelled ''SeqId'' (column_labels (SampleAnnotNames res) (table_part rows))
                (column_values (SampleAnnotNames res) (table_part rows)) = Some raw \<and>
              sf_columns (SequenceData res) =
                map ((@) ''SeqId.'') (apply_mask kp (colPassFlag s) raw))"
proof -
  from assms obtain s seqIds raw
    where run: "process kp ks rows init_state = Inr s"
      and input: "sequenceDataIndex s = column_labels (SampleAnnotNames res) (table_part rows)"
        "sequenceData s = column_values (SampleAnnotNames res) (table_part rows)"
      and cols: "df_columns (SampleAndIntensityData res) = SampleAnnotNames res @ seqIds"
      and frame: "SequenceData res =
       \<lparr> sf_index = sequenceDataIndex s, sf_columns = seqIds,
         sf_values = map (pad (max_width (map (apply_mask kp (colPassFlag s)) (sequenceData s))))
                       (map (apply_mask kp (colPassFlag s)) (sequenceData s)) \<rparr>"
      and len: "length seqIds = max_width (map (apply_mask kp (colPassFlag s)) (sequenceData s))"
      and raw: "first_labelled ''SeqId'' (sequenceDataIndex s) (sequenceData s) = Some raw"
      and ids: "seqIds = map ((@) ''SeqId.'') (apply_mask kp (colPassFlag s) raw)"
    by (rule readAdat_columns)
  define w where "w = max_width (map (apply_mask kp (colPassFlag s)) (sequenceData s))"
  have fr: "first_labelled ''SeqId'' (sf_index (SequenceData res)) (sf_values (SequenceData res))
              = Some (pad w (apply_mask kp (colPassFlag s) raw))"
    using raw by (simp add: frame first_labelled_map w_def)
  have "length (apply_mask kp (colPassFlag s) raw) = w"
    using ids len by (simp add: w_def)
  then have "pad w (apply_mask kp (colPassFlag s) raw) = map Some (apply_mask kp (colPassFlag s) raw)"
    by (simp add: pad_def)
  then have second: "map Some (sf_columns (SequenceData res)) =
      map (map_option ((@) ''SeqId.'')) (pad w (apply_mask kp (colPassFlag s) raw))"
    using ids by (simp add: frame)
  have third: "\<exists>s raw. process kp ks rows init_state = Inr s \<and>
              first_labelled ''SeqId'' (column_labels (SampleAnnotNames res) (table_part rows))
                (column_values (SampleAnnotNames res) (table_part rows)) = Some raw \<and>
              sf_columns (SequenceData res) =
                map ((@) ''SeqId.'') (apply_mask kp (colPassFlag s) raw)"
    using run raw input ids by (auto simp: frame)
  show ?thesis
    using cols fr second third by (simp add: frame)
qed

theorem protein_columns_agree_witness:
  "readAdat decimal_literal True True ex_table = Inr ex_table_result \<and>
   df_columns (SampleAndIntensityData ex_table_result) =
     [''SampleId'', ''SampleType'', ''RowCheck''] @ [''SeqId.10000-28''] \<and>
   sf_columns (SequenceData ex_table_result) = [''SeqId.10000-28''] \<and>
   first_labelled ''SeqId'' (sf_index (SequenceData ex_table_result))
     (sf_values (SequenceData ex_table_result)) = Some [Some ''10000-28'']"
proof -
  have h: "readAdat decimal_literal True True ex_table = Inr ex_table_result"
    by code_simp
  have v: "SampleAnnotNames ex_table_result = [''SampleId'', ''SampleType'', ''RowCheck'']"
      "sf_columns (SequenceData ex_table_result) = [''SeqId.10000-28'']"
    by (simp_all add: ex_table_result_def)
  have f: "first_labelled ''SeqId'' (sf_index (SequenceData ex_table_result))
     (sf_values (SequenceData ex_table_result)) = Some [Some ''10000-28'']"
    by code_simp
  from protein_columns_agree [OF h] v
  have "df_columns (SampleAndIntensityData ex_table_result) =
     [''SampleId'', ''SampleType'', ''RowCheck''] @ [''SeqId.10000-28'']"
    by simp
  then show ?thesis using h v(2) f by blast
qed

subsection \<open>The checksum\<close>

lemma process_row_section_set:
  assumes "process_row kp ks row s = Inr s'" and "curSection s \<noteq> None"
  shows "curSection s' \<noteq> None \<and> av_Checksum s' = av_Checksum s"
proof (cases "curSection s = Some ''^TABLE_BEGIN''")
  case True
  then have "table_row kp ks row s = Inr s'"
    using assms(1) by (simp add: process_row_in_table)
  then show ?thesis using True by (cases rule: table_row_cases) simp_all
next
  case False
  from assms(1) False show ?thesis
    by (cases rule: header_row_cases) (use assms(2) in \<open>auto elim!: name_row_cases\<close>)
qed

lemma process_section_set:
  assumes "process kp ks rows s = Inr s'" and "curSection s \<noteq> None"
  shows "curSection s' \<noteq> None \<and> av_Checksum s' = av_Checksum s"
  using assms
proof (induction rows arbitrary: s)
  case Nil
  then show ?case by simp
next
  case (Cons row rows)
  from Cons.prems(1) obtain s1
    where s1: "process_row kp ks row s = Inr s1" and rest: "process kp ks rows s1 = Inr s'"
    by (rule process_Cons_Inr)
  show ?case
    using process_row_section_set [OF s1 Cons.prems(2)] Cons.IH [OF rest] by simp
qed

lemma checksum_lines_marker: "is_marker row \<Longrightarrow> checksum_lines (row # rows) = []"
  by (simp add: checksum_lines_def)

lemma checksum_lines_Cons:
  "\<not> is_marker row \<Longrightarrow>
     checksum_lines (row # rows) =
       (if take 1 row = [''!Checksum''] then row # checksum_lines rows else checksum_lines rows)"
  by (simp add: checksum_lines_def)

lemma process_checksum:
  assumes "process kp ks rows s = Inr s'" and "curSection s = None"
  shows "av_Checksum s' =
           (if checksum_lines rows = [] then av_Checksum s
            else Some (last (checksum_lines rows) ! 1))"
  using assms
proof (induction rows arbitrary: s)
  case Nil
  then show ?case by (simp add: checksum_lines_def)
next
  case (Cons row rows)
  from Cons.prems(1) obtain s1
    where s1: "process_row kp ks row s = Inr s1" and rest: "process kp ks rows s1 = Inr s'"
    by (rule process_Cons_Inr)
  have notb: "curSection s \<noteq> Some ''^TABLE_BEGIN''"
    using Cons.prems(2) by simp
  from s1 notb show ?case
  proof (cases rule: header_row_cases)
    case (marker row0 rest')
    then have "is_marker row" by (simp add: is_marker_def)
    moreover have "av_Checksum s' = av_Checksum s"
      using process_section_set [OF rest] marker by simp
    ultimately show ?thesis by (simp add: checksum_lines_marker)
  next
    case (checksum v rest')
    then have nm: "\<not> is_marker row" by (simp add: is_marker_def sectionTitles_def)
    have "take 1 row = [''!Checksum'']"
      using checksum(1) by simp
    then have cl: "checksum_lines (row # rows) = row # checksum_lines rows"
      using checksum_lines_Cons [OF nm, of rows] by simp
    have "curSection s1 = None" "av_Checksum s1 = Some v"
      using checksum Cons.prems(2) by simp_all
    then show ?thesis
      unfolding cl using Cons.IH [OF rest] checksum(1) by simp
  next
    case (metadata k v rest')
    then show ?thesis using Cons.prems(2) by simp
  next
    case (name flds)
    then show ?thesis using Cons.prems(2) by simp
  next
    case (other row0 rest')
    then have nm: "\<not> is_marker row" by (simp add: is_marker_def)
    have "take 1 row \<noteq> [''!Checksum'']"
      using other Cons.prems(2) by simp
    then have cl: "checksum_lines (row # rows) = checksum_lines rows"
      using checksum_lines_Cons [OF nm, of rows] by simp
    show ?thesis
      unfolding cl using Cons.IH [OF rest] other(6) Cons.prems(2) by simp
  qed
qed

lemma process_row_metadata_keys:
  assumes "process_row kp ks row s = Inr s'"
  shows "fst ` set (av_Metadata s) \<subseteq> fst ` set (av_Metadata s')"
proof (cases "curSection s = Some ''^TABLE_BEGIN''")
  case True
  then have "table_row kp ks row s = Inr s'"
    using assms(1) by (simp add: process_row_in_table)
  then show ?thesis by (cases rule: table_row_cases) simp_all
next
  case False
  from assms(1) False show ?thesis
    by (cases rule: header_row_cases) (auto simp: dom_update elim!: name_row_cases)
qed

lemma process_metadata_keys:
  assumes "process kp ks rows s = Inr s'"
  shows "fst ` set (av_Metadata s) \<subseteq> fst ` set (av_Metadata s')"
  using assms
proof (induction rows arbitrary: s)
  case Nil
  then show ?case by simp
next
  case (Cons row rows)
  from Cons.prems(1) obtain s1
    where s1: "process_row kp ks row s = Inr s1" and rest: "process kp ks rows s1 = Inr s'"
    by (rule process_Cons_Inr)
  show ?case
    using process_row_metadata_keys [OF s1] Cons.IH [OF rest] by blast
qed

lemma header_checksum_row:
  assumes "curSection s = Some ''^HEADER''"
  shows "process_row kp ks (''!Checksum'' # v # rest) s =
           Inr (s\<lparr> av_Metadata := AList.update ''!Checksum'' v (av_Metadata s) \<rparr>)"
  using assms by (simp add: process_row_def sectionTitles_def)

text \<open>
  Claim C10. A result has a checksum exactly when a line whose first field is
  \<^verbatim>\<open>!Checksum\<close> comes before the first section marker line (and it is then the second
  field of the last such line). A \<^verbatim>\<open>!Checksum\<close> line read in the \<^verbatim>\<open>^HEADER\<close> section
  is stored in the metadata under the key \<^verbatim>\<open>!Checksum\<close>, which the result keeps, and
  leaves the checksum as it was before the line.
\<close>

theorem checksum_entry:
  assumes "readAdat to_float kp ks rows = Inr res"
  shows "(Checksum res \<noteq> None) = (checksum_lines rows \<noteq> []) \<and>
         (checksum_lines rows \<noteq> [] \<longrightarrow> Checksum res = Some (last (checksum_lines rows) ! 1)) \<and>
         (\<forall>pre v rest post.
            rows = pre @ (''!Checksum'' # v # rest) # post \<and>
            track_section None pre = Some ''^HEADER'' \<longrightarrow>
            ''!Checksum'' \<in> fst ` set (Metadata res) \<and>
            (\<exists>s. process kp ks pre init_state = Inr s \<and>
                 process kp ks (pre @ [''!Checksum'' # v # rest]) init_state =
                   Inr (s\<lparr> av_Metadata := AList.update ''!Checksum'' v (av_Metadata s) \<rparr>) \<and>
                 Checksum res = av_Checksum s))"
proof -
  from assms obtain s seqIds vals
    where run: "process kp ks rows init_state = Inr s"
      and res: "res = \<lparr> Checksum = av_Checksum s, Metadata = av_Metadata s,
             SampleAnnotNames = SampleAnnotNames res, SequenceAnnotNames = sequenceDataIndex s,
             SequenceData = SequenceData res,
             SampleAndIntensityData =
               \<lparr> df_columns = SampleAnnotNames res @ seqIds, df_values = vals \<rparr> \<rparr>"
    by (rule readAdat_run)
  have cs: "Checksum res = av_Checksum s" and md: "Metadata res = av_Metadata s"
    by (subst res, simp)+
  have first: "Checksum res =
      (if checksum_lines rows = [] then None else Some (last (checksum_lines rows) ! 1))"
    using process_checksum [OF run] cs by (simp add: init_state_def)
  have second: "''!Checksum'' \<in> fst ` set (Metadata res) \<and>
            (\<exists>s. process kp ks pre init_state = Inr s \<and>
                 process kp ks (pre @ [''!Checksum'' # v # rest]) init_state =
                   Inr (s\<lparr> av_Metadata := AList.update ''!Checksum'' v (av_Metadata s) \<rparr>) \<and>
                 Checksum res = av_Checksum s)"
    if split: "rows = pre @ (''!Checksum'' # v # rest) # post"
      and hdr: "track_section None pre = Some ''^HEADER''"
    for pre v rest post
  proof -
    from run split obtain s1
      where s1: "process kp ks pre init_state = Inr s1"
        and rest1: "process kp ks ((''!Checksum'' # v # rest) # post) s1 = Inr s"
      using process_append [of kp ks pre "(''!Checksum'' # v # rest) # post" init_state]
      by (cases "process kp ks pre init_state") simp_all
    have sec: "curSection s1 = Some ''^HEADER''"
      using process_section [OF s1] hdr by (simp add: init_state_def)
    define s2 where "s2 = s1\<lparr> av_Metadata := AList.update ''!Checksum'' v (av_Metadata s1) \<rparr>"
    have step: "process_row kp ks (''!Checksum'' # v # rest) s1 = Inr s2"
      using header_checksum_row [OF sec] by (simp add: s2_def)
    then have rest2: "process kp ks post s2 = Inr s"
      using rest1 by simp
    have "''!Checksum'' \<in> fst ` set (av_Metadata s2)"
      by (simp add: s2_def dom_update)
    then have key: "''!Checksum'' \<in> fst ` set (Metadata res)"
      using process_metadata_keys [OF rest2] md by auto
    have "av_Checksum s = av_Checksum s2"
      using process_section_set [OF rest2] sec by (simp add: s2_def)
    then have same: "Checksum res = av_Checksum s1"
      using cs by (simp add: s2_def)
    have "process kp ks (pre @ [''!Checksum'' # v # rest]) init_state = Inr s2"
      using s1 step by (simp add: process_append)
    then show ?thesis
      using key same s1 by (auto simp: s2_def)
  qed
  show ?thesis
    using first second by simp
qed

theorem checksum_entry_witness:
  "readAdat decimal_literal True True ex_checksums = Inr ex_checksums_result \<and>
   Checksum ex_checksums_result = Some ''c0ffee'' \<and>
   checksum_lines ex_checksums = [[''!Checksum'', ''c0ffee'']] \<and>
   ex_checksums = [[''!Checksum'', ''c0ffee''], [''^HEADER''], [''!Title'', ''Plate 1'']] @
                  (''!Checksum'' # ''decaf'' # []) # drop 4 ex_checksums \<and>
   track_section None [[''!Checksum'', ''c0ffee''], [''^HEADER''], [''!Title'', ''Plate 1'']]
     = Some ''^HEADER'' \<and>
   ''!Checksum'' \<in> fst ` set (Metadata ex_checksums_result) \<and>
   Metadata ex_checksums_result = [(''!Title'', ''Plate 1''), (''!Checksum'', ''decaf'')]"
proof -
  have h: "readAdat decimal_literal True True ex_checksums = Inr ex_checksums_result"
    by code_simp
  have v1: "Checksum ex_checksums_result = Some ''c0ffee''"
    and v2: "Metadata ex_checksums_result = [(''!Title'', ''Plate 1''), (''!Checksum'', ''decaf'')]"
    by (simp_all add: ex_checksums_result_def)
  have l: "checksum_lines ex_checksums = [[''!Checksum'', ''c0ffee'']]"
    by code_simp
  have sp: "ex_checksums = [[''!Checksum'', ''c0ffee''], [''^HEADER''], [''!Title'', ''Plate 1'']] @
                  (''!Checksum'' # ''decaf'' # []) # drop 4 ex_checksums"
    by (simp add: ex_checksums_def)
  have tr: "track_section None [[''!Checksum'', ''c0ffee''], [''^HEADER''], [''!Title'', ''Plate 1'']]
     = Some ''^HEADER''"
    by code_simp
  from checksum_entry [OF h] sp tr
  have "''!Checksum'' \<in> fst ` set (Metadata ex_checksums_result)"
    by blast
  then show ?thesis using h v1 v2 l sp tr by blast
qed

subsection \<open>A readout cell that is no number\<close>




subsection \<open>The number of readout columns\<close>




subsection \<open>The order of the \<^verbatim>\<open>ColCheck\<close> row and the sample rows\<close>

lemma process_row_appends:
  assumes "process_row kp ks row s = Inr s'"
  shows "\<exists>more. sampleAndIntensityData s' = sampleAndIntensityData s @ more"
proof (cases "curSection s = Some ''^TABLE_BEGIN''")
  case True
  then have "table_row kp ks row s = Inr s'"
    using assms by (simp add: process_row_in_table)
  then show ?thesis by (cases rule: table_row_cases) simp_all
next
  case False
  from assms False show ?thesis
    by (cases rule: header_row_cases) (auto elim!: name_row_cases)
qed

lemma process_appends:
  "process kp ks rows s = Inr s' \<Longrightarrow>
     \<exists>more. sampleAndIntensityData s' = sampleAndIntensityData s @ more"
proof (induction rows arbitrary: s)
  case Nil
  then show ?case by simp
next
  case (Cons row rows)
  from Cons.prems obtain s1
    where s1: "process_row kp ks row s = Inr s1" and rest: "process kp ks rows s1 = Inr s'"
    by (rule process_Cons_Inr)
  from process_row_appends [OF s1] Cons.IH [OF rest] show ?case by auto
qed

lemma mask_needs_ColCheck:
  assumes "mask_ok kp s" and "colPassFlag s = Some m"
  shows "''ColCheck'' \<in> set (sequenceDataIndex s)"
proof -
  obtain cc
    where "last_labelled ''ColCheck'' (sequenceDataIndex s) (sequenceData s) = Some cc"
    using assms
    by (cases "last_labelled ''ColCheck'' (sequenceDataIndex s) (sequenceData s)")
       (auto simp: mask_ok_def split: if_splits)
  then show ?thesis using last_labelled_mem by fast
qed

lemma kept_sample_row:
  assumes "process_row kp ks row s1 = Inr s2"
    and "sampleAndIntensityData s2 \<noteq> sampleAndIntensityData s1"
  obtains names where "av_SampleAnnotNames s1 = Some names"
    "sampleAndIntensityData s2 = sampleAndIntensityData s1 @
       [take (length names) row @ apply_mask kp (colPassFlag s1) (drop (length names + 1) row)]"
proof (cases "curSection s1 = Some ''^TABLE_BEGIN''")
  case True
  then have "table_row kp ks row s1 = Inr s2"
    using assms(1) by (simp add: process_row_in_table)
  then show ?thesis
    using assms(2) that by (cases rule: table_row_cases) simp_all
next
  case False
  from assms(1) False show ?thesis
    by (cases rule: header_row_cases) (use assms(2) in \<open>auto elim!: name_row_cases\<close>)
qed

text \<open>
  Claim C5, amended. With \<open>keepOnlyPasses\<close> on, let a row be read after the rows
  \<open>pre\<close> and add an entry to the sample rows. The entry is the sample annotations
  followed by the readouts, which are filtered by the mask as it is at that moment: if
  they are not all there, a \<^verbatim>\<open>ColCheck\<close> row was read before; if none was, all of them
  are kept. The rows read later leave the entry as it is, and so does the end of the
  pass, where the sample rows are only filled up to the width of the frame. The
  column-annotation rows are all filtered by the final mask at the end of the pass
  (line 96), to the positions where the mask is true and in their order, when that mask
  is not empty.
\<close>

theorem sample_rows_not_refiltered:
  assumes "process True ks pre init_state = Inr s1"
    and "process_row True ks row s1 = Inr s2"
    and "sampleAndIntensityData s2 \<noteq> sampleAndIntensityData s1"
    and "process True ks post s2 = Inr s"
  shows "\<exists>names readouts.
           av_SampleAnnotNames s1 = Some names \<and>
           readouts = apply_mask True (colPassFlag s1) (drop (length names + 1) row) \<and>
           sampleAndIntensityData s2 =
             sampleAndIntensityData s1 @ [take (length names) row @ readouts] \<and>
           (readouts \<noteq> drop (length names + 1) row \<longrightarrow>
              ''ColCheck'' \<in> set (sequenceDataIndex s1)) \<and>
           sampleAndIntensityData s ! length (sampleAndIntensityData s1) =
             take (length names) row @ readouts \<and>
           (\<forall>names' ids frame vals0.
              assemble True s = Inr (names', ids, frame, vals0) \<longrightarrow>
                vals0 = map (pad (length names' + length ids)) (sampleAndIntensityData s) \<and>
                (\<forall>m. colPassFlag s = Some m \<and> m \<noteq> [] \<longrightarrow>
                   sf_values frame =
                     map (pad (max_width (mask_rows m (sequenceData s))))
                         (mask_rows m (sequenceData s))))"
proof -
  from assms(2,3) obtain names
    where names: "av_SampleAnnotNames s1 = Some names"
      and entry: "sampleAndIntensityData s2 = sampleAndIntensityData s1 @
         [take (length names) row @ apply_mask True (colPassFlag s1) (drop (length names + 1) row)]"
    by (rule kept_sample_row)
  define readouts where "readouts = apply_mask True (colPassFlag s1) (drop (length names + 1) row)"
  have ok1: "mask_ok True s1"
    using process_mask_ok [OF mask_ok_init assms(1)] .
  have only_if: "''ColCheck'' \<in> set (sequenceDataIndex s1)"
    if "readouts \<noteq> drop (length names + 1) row"
  proof (cases "colPassFlag s1")
    case None
    then show ?thesis using that by (simp add: readouts_def apply_mask_def)
  next
    case (Some m)
    then show ?thesis using mask_needs_ColCheck [OF ok1] by simp
  qed
  from process_appends [OF assms(4)] obtain more
    where "sampleAndIntensityData s = sampleAndIntensityData s2 @ more"
    by blast
  then have stays: "sampleAndIntensityData s ! length (sampleAndIntensityData s1) =
      take (length names) row @ readouts"
    using entry by (simp add: readouts_def nth_append)
  have fin: "vals0 = map (pad (length names' + length ids)) (sampleAndIntensityData s) \<and>
        (\<forall>m. colPassFlag s = Some m \<and> m \<noteq> [] \<longrightarrow>
           sf_values frame =
             map (pad (max_width (mask_rows m (sequenceData s)))) (mask_rows m (sequenceData s)))"
    if asm: "assemble True s = Inr (names', ids, frame, vals0)" for names' ids frame vals0
  proof -
    from asm have v: "vals0 = map (pad (length names' + length ids)) (sampleAndIntensityData s)"
      and f: "sf_values frame =
          map (pad (max_width (map (apply_mask True (colPassFlag s)) (sequenceData s))))
              (map (apply_mask True (colPassFlag s)) (sequenceData s))"
      by (auto elim!: assemble_cases)
    have "sf_values frame =
             map (pad (max_width (mask_rows m (sequenceData s)))) (mask_rows m (sequenceData s))"
      if "colPassFlag s = Some m" "m \<noteq> []" for m
    proof -
      have "apply_mask True (colPassFlag s) = (\<lambda>r :: string list. mask_filter r m)"
        using that by (auto simp: apply_mask_on)
      then show ?thesis
        using f by (simp only: mask_rows_def)
    qed
    then show ?thesis using v by blast
  qed
  show ?thesis
    using names entry only_if stays fin unfolding readouts_def by blast
qed

theorem sample_rows_not_refiltered_witness:
  "process True True ex_late_pre init_state = Inr ex_late_before \<and>
   process_row True True [''Sample'', ''PASS'', '''', ''1.5'', ''2.5''] ex_late_before
     = Inr ex_late_after \<and>
   sampleAndIntensityData ex_late_after \<noteq> sampleAndIntensityData ex_late_before \<and>
   process True True [['''', '''', ''ColCheck'', ''PASS'', ''FAIL'']] ex_late_after
     = Inr ex_late_end \<and>
   ''ColCheck'' \<notin> set (sequenceDataIndex ex_late_before) \<and>
   colPassFlag ex_late_end = Some [True, False] \<and>
   sampleAndIntensityData ex_late_end ! 0 = [''Sample'', ''PASS'', ''1.5'', ''2.5''] \<and>
   assemble True ex_late_end = Inl (ValueError_columns 3 4) \<and>
   process True True (take 8 ex_table) init_state = Inr ex_table_before \<and>
   process_row True True (ex_table ! 8) ex_table_before = Inr ex_table_after \<and>
   sampleAndIntensityData ex_table_after \<noteq> sampleAndIntensityData ex_table_before \<and>
   process True True (drop 9 ex_table) ex_table_after = Inr ex_table_end \<and>
   colPassFlag ex_table_end = Some [True, False] \<and>
   assemble True ex_table_end =
     Inr (SampleAnnotNames ex_table_result, sf_columns (SequenceData ex_table_result),
          SequenceData ex_table_result,
          [[Some ''S1'', Some ''Sample'', Some ''PASS'', Some ''1.5''],
           [Some ''S4'', Some ''Sample'', Some ''PASS'', Some ''-7'']]) \<and>
   sf_values (SequenceData ex_table_result) =
     map (pad (max_width (mask_rows [True, False] (sequenceData ex_table_end))))
         (mask_rows [True, False] (sequenceData ex_table_end)) \<and>
   sf_values (SequenceData ex_table_result) = [[Some ''10000-28''], [Some ''PASS'']]"
proof -
  have h1: "process True True ex_late_pre init_state = Inr ex_late_before"
    by code_simp
  have h2: "process_row True True [''Sample'', ''PASS'', '''', ''1.5'', ''2.5''] ex_late_before
     = Inr ex_late_after"
    by code_simp
  have h3: "sampleAndIntensityData ex_late_after \<noteq> sampleAndIntensityData ex_late_before"
    by (simp add: ex_late_after_def ex_late_before_def)
  have h4: "process True True [['''', '''', ''ColCheck'', ''PASS'', ''FAIL'']] ex_late_after
     = Inr ex_late_end"
    by code_simp
  have v: "''ColCheck'' \<notin> set (sequenceDataIndex ex_late_before)"
      "colPassFlag ex_late_end = Some [True, False]"
      "av_SampleAnnotNames ex_late_before = Some [''SampleType'', ''RowCheck'']"
      "colPassFlag ex_late_before = None"
      "length (sampleAndIntensityData ex_late_before) = 0"
    by (simp_all add: ex_late_before_def ex_late_after_def ex_late_end_def)
  have a: "assemble True ex_late_end = Inl (ValueError_columns 3 4)"
    by code_simp
  from sample_rows_not_refiltered [OF h1 h2 h3 h4] v(3,4,5)
  have late: "sampleAndIntensityData ex_late_end ! 0 = [''Sample'', ''PASS'', ''1.5'', ''2.5'']"
    by (auto simp: apply_mask_def)
  have g1: "process True True (take 8 ex_table) init_state = Inr ex_table_before"
    by code_simp
  have g2: "process_row True True (ex_table ! 8) ex_table_before = Inr ex_table_after"
    by code_simp
  have g3: "sampleAndIntensityData ex_table_after \<noteq> sampleAndIntensityData ex_table_before"
    by (simp add: ex_table_after_def ex_table_before_def)
  have g4: "process True True (drop 9 ex_table) ex_table_after = Inr ex_table_end"
    by code_simp
  have m: "colPassFlag ex_table_end = Some [True, False]"
    by (simp add: ex_table_end_def ex_table_before_def)
  have b: "assemble True ex_table_end =
     Inr (SampleAnnotNames ex_table_result, sf_columns (SequenceData ex_table_result),
          SequenceData ex_table_result,
          [[Some ''S1'', Some ''Sample'', Some ''PASS'', Some ''1.5''],
           [Some ''S4'', Some ''Sample'', Some ''PASS'', Some ''-7'']])"
    by code_simp
  from sample_rows_not_refiltered [OF g1 g2 g3 g4] b m
  have filtered: "sf_values (SequenceData ex_table_result) =
     map (pad (max_width (mask_rows [True, False] (sequenceData ex_table_end))))
         (mask_rows [True, False] (sequenceData ex_table_end))"
    by blast
  have explicit: "sf_values (SequenceData ex_table_result) = [[Some ''10000-28''], [Some ''PASS'']]"
    by (simp add: ex_table_result_def)
  show ?thesis
    using h1 h2 h3 h4 v(1,2) a late g1 g2 g3 g4 m b filtered explicit by blast
qed

text \<open>
  Claim C5 as it is written has every column-annotation row filtered to the positions
  where the mask is true, whenever \<open>keepOnlyPasses\<close> is on and a mask was made. The
  \<^verbatim>\<open>ColCheck\<close> row of \<open>ex_empty_colcheck\<close> makes the empty mask, true nowhere, and
  the \<^verbatim>\<open>SeqId\<close> row keeps its value in the result.
\<close>

theorem sample_rows_not_refiltered_counterexample:
  "process True True ex_empty_colcheck init_state = Inr ex_empty_colcheck_state \<and>
   colPassFlag ex_empty_colcheck_state = Some [] \<and>
   sequenceData ex_empty_colcheck_state = [[''10000-28''], []] \<and>
   mask_rows [] (sequenceData ex_empty_colcheck_state) = [[], []] \<and>
   readAdat decimal_literal True True ex_empty_colcheck = Inr ex_empty_colcheck_result \<and>
   sf_values (SequenceData ex_empty_colcheck_result) = [[Some ''10000-28''], [None]]"
proof -
  have "process True True ex_empty_colcheck init_state = Inr ex_empty_colcheck_state"
    by code_simp
  moreover have "colPassFlag ex_empty_colcheck_state = Some []"
      "sequenceData ex_empty_colcheck_state = [[''10000-28''], []]"
    by (simp_all add: ex_empty_colcheck_state_def)
  moreover have "mask_rows [] (sequenceData ex_empty_colcheck_state) = [[], []]"
    by code_simp
  moreover have "readAdat decimal_literal True True ex_empty_colcheck = Inr ex_empty_colcheck_result"
    by code_simp
  moreover have "sf_values (SequenceData ex_empty_colcheck_result) = [[Some ''10000-28''], [None]]"
    by (simp add: ex_empty_colcheck_result_def)
  ultimately show ?thesis by blast
qed

end
